theory Spec2Isabelle
  imports Complex_Main "HOL-Library.Monad_Syntax"
begin

text \<open>
  A shallow embedding of the clone-detection server: \<^verbatim>\<open>backend/server.js\<close> and the
  second server file of the repository, whose name is not known and which is called the
  unnamed file below. Both define \<open>extractMainDomain\<close>, \<open>loadDomains\<close> and a handler of
  \<open>POST /check-clone\<close>. The unnamed file scores with its own \<open>levenshteinDistance\<close> and
  looks up WHOIS data with \<open>getWhoisData\<close>; \<^verbatim>\<open>backend/server.js\<close> scores with
  \<open>compareTwoStrings\<close> of the package string-similarity and looks up through
  \<open>getCachedWhoisData\<close>. Definitions of the unnamed file that clash carry the suffix
  \<open>_unnamed\<close>.
\<close>

section \<open>Similarity scoring: \<open>levenshteinDistance\<close>\<close>

text \<open>
  A JavaScript array is an object keyed by its indices: a read of an index never written
  gives \<open>undefined\<close>, a write at any index succeeds. It is a partial map from indices
  to values. The code never reads the \<open>length\<close> of the matrix or of a row.
\<close>

type_synonym 'a js_array = "nat \<rightharpoonup> 'a"

type_synonym matrix = "nat js_array js_array"

text \<open>
  \<open>matrix[i][j]\<close> as a value. \<open>None\<close> stands for a read that does not find a number:
  \<open>matrix[i]\<close> is \<open>undefined\<close> (JavaScript throws a TypeError) or the cell is
  \<open>undefined\<close> (the arithmetic of the caller turns it into NaN).
\<close>

definition get_cell :: "matrix \<Rightarrow> nat \<Rightarrow> nat \<Rightarrow> nat option" where
  "get_cell m i j = (case m i of None \<Rightarrow> None | Some row \<Rightarrow> row j)"

text \<open>\<open>matrix[i][j] = v\<close>: a TypeError (\<open>None\<close>) when \<open>matrix[i]\<close> is \<open>undefined\<close>.\<close>

definition set_cell :: "matrix \<Rightarrow> nat \<Rightarrow> nat \<Rightarrow> nat \<Rightarrow> matrix option" where
  "set_cell m i j v = (case m i of None \<Rightarrow> None | Some row \<Rightarrow> Some (m(i \<mapsto> row(j \<mapsto> v))))"

text \<open>\<open>s.charAt(i)\<close>: the one-character string at \<open>i\<close>, the empty string out of range.\<close>

definition charAt :: "string \<Rightarrow> nat \<Rightarrow> string" where
  "charAt s i = (if i < length s then [s ! i] else [])"

text \<open>
  A loop over a list of values, threading the variables the body assigns; it stops at the
  first step that fails. \<open>for (let i = lo; i < hi; i++)\<close> runs over \<open>[lo..<hi]\<close>,
  \<open>for (let x of set)\<close> over the elements of the Set in insertion order.
\<close>

fun for_loop :: "'a list \<Rightarrow> ('a \<Rightarrow> 's \<Rightarrow> 's option) \<Rightarrow> 's \<Rightarrow> 's option" where
  "for_loop [] body s = Some s"
| "for_loop (i # is) body s =
     (case body i s of None \<Rightarrow> None | Some s' \<Rightarrow> for_loop is body s')"

text \<open>
  The body of the inner loop, lines 99 to 103 of the source. The loops call it with \<open>i\<close>
  and \<open>j\<close> from 1 on, so \<open>i - 1\<close> and \<open>j - 1\<close> are the numbers JavaScript computes.
\<close>

definition fill_cell :: "string \<Rightarrow> string \<Rightarrow> nat \<Rightarrow> nat \<Rightarrow> matrix \<Rightarrow> matrix option" where
  "fill_cell a b i j m =
     (if charAt b (i - 1) = charAt a (j - 1)
      then do { d \<leftarrow> get_cell m (i - 1) (j - 1); set_cell m i j d }
      else do {
        x \<leftarrow> get_cell m (i - 1) (j - 1);
        y \<leftarrow> get_cell m i (j - 1);
        z \<leftarrow> get_cell m (i - 1) j;
        set_cell m i j (min (x + 1) (min (y + 1) (z + 1))) })"

text \<open>
  The three loops that build the matrix: \<open>matrix[i] = [i]\<close> for every row, then
  \<open>matrix[0][j] = j\<close>, then the nested loops over rows and columns from 1.
\<close>

definition build_matrix :: "string \<Rightarrow> string \<Rightarrow> matrix option" where
  "build_matrix a b = do {
     m1 \<leftarrow> for_loop [0..<Suc (length b)] (\<lambda>i m. Some (m(i \<mapsto> [0 \<mapsto> i]))) Map.empty;
     m2 \<leftarrow> for_loop [0..<Suc (length a)] (\<lambda>j m. set_cell m 0 j j) m1;
     for_loop [1..<Suc (length b)]
       (\<lambda>i m. for_loop [1..<Suc (length a)] (\<lambda>j m'. fill_cell a b i j m') m) m2 }"

text \<open>
  \<open>levenshteinDistance(a, b)\<close> of the unnamed source file. The two early returns give a
  length; the last line gives a percentage. Numbers are read as reals: the division and
  the product are exact, where JavaScript rounds to a double.
\<close>

definition levenshteinDistance :: "string \<Rightarrow> string \<Rightarrow> real option" where
  "levenshteinDistance a b =
     (if length a = 0 then Some (real (length b))
      else if length b = 0 then Some (real (length a))
      else do {
        m \<leftarrow> build_matrix a b;
        d \<leftarrow> get_cell m (length b) (length a);
        Some ((1 - real d / real (max (length a) (length b))) * 100) })"

subsection \<open>The edit distance of the specification\<close>

text \<open>
  The Levenshtein distance by its recurrence on prefixes: \<open>lev_prefix a b i j\<close> is the
  distance between the first \<open>i\<close> characters of \<open>a\<close> and the first \<open>j\<close> of \<open>b\<close>.
\<close>

fun lev_prefix :: "'a list \<Rightarrow> 'a list \<Rightarrow> nat \<Rightarrow> nat \<Rightarrow> nat" where
  "lev_prefix a b 0 j = j"
| "lev_prefix a b (Suc i) 0 = Suc i"
| "lev_prefix a b (Suc i) (Suc j) =
     (if a ! i = b ! j then lev_prefix a b i j
      else 1 + min (lev_prefix a b i j) (min (lev_prefix a b i (Suc j)) (lev_prefix a b (Suc i) j)))"

definition levenshtein_distance :: "'a list \<Rightarrow> 'a list \<Rightarrow> nat" where
  "levenshtein_distance a b = lev_prefix a b (length a) (length b)"

text \<open>The similarity of the specification: \<open>(1 - distance / max(len a, len b)) * 100\<close>.\<close>

definition normalized_similarity :: "string \<Rightarrow> string \<Rightarrow> real" where
  "normalized_similarity a b =
     (1 - real (levenshtein_distance a b) / real (max (length a) (length b))) * 100"

section \<open>Domain normalisation\<close>

text \<open>\<open>s.startsWith(p)\<close>.\<close>

definition startsWith :: "string \<Rightarrow> string \<Rightarrow> bool" where
  "startsWith s p \<longleftrightarrow> take (length p) s = p"

text \<open>
  \<open>extractMainDomain\<close>, the same in both files. \<open>new URL(inputUrl).hostname\<close> belongs to
  the platform and is the parameter \<open>hostname_of\<close>: \<open>None\<close> when the constructor throws.
  The \<open>catch\<close> turns the exception into \<open>null\<close>, here \<open>None\<close>.
\<close>

definition extractMainDomain :: "(string \<Rightarrow> string option) \<Rightarrow> string \<Rightarrow> string option" where
  "extractMainDomain hostname_of inputUrl =
     (let inputUrl' =
            (if \<not> startsWith inputUrl ''http://'' \<and> \<not> startsWith inputUrl ''https://''
             then ''https://'' @ inputUrl else inputUrl)
      in case hostname_of inputUrl' of
           None \<Rightarrow> None
         | Some hostname \<Rightarrow>
             Some (if startsWith hostname ''www.'' then drop 4 hostname else hostname))"

subsection \<open>A URL parser to run examples\<close>

definition toLowerCase_char :: "char \<Rightarrow> char" where
  "toLowerCase_char c =
     (case map_of (zip ''ABCDEFGHIJKLMNOPQRSTUVWXYZ'' ''abcdefghijklmnopqrstuvwxyz'') c of
        None \<Rightarrow> c | Some l \<Rightarrow> l)"

text \<open>\<open>s.toLowerCase()\<close> on ASCII.\<close>

definition toLowerCase :: "string \<Rightarrow> string" where
  "toLowerCase s = map toLowerCase_char s"

definition forbidden_host_char :: "char \<Rightarrow> bool" where
  "forbidden_host_char c \<longleftrightarrow> c \<in> set '' <>[]^|%''"

definition is_digit :: "char \<Rightarrow> bool" where
  "is_digit c \<longleftrightarrow> c \<in> set ''0123456789''"

text \<open>
  Modelled from the spec: the hostname component of a parsed URL. The \<open>URL\<close> class is the
  platform's and is not in the repository. The specification (4.1) asks for the hostname
  alone, ignoring path, query, port and credentials, in lower case, and for a failure on
  malformed input, on the empty string and on invalid characters. This parser does that
  for an input that starts with \<open>http://\<close> or \<open>https://\<close>: the authority ends at the
  first \<open>/\<close>, \<open>?\<close> or \<open>#\<close>, the credentials end at the last \<open>@\<close>, the port
  starts at the first \<open>:\<close> and is made of digits. Bracketed IPv6 addresses, percent
  escapes and international names are left out.
\<close>

definition url_hostname :: "string \<Rightarrow> string option" where
  "url_hostname url =
     (if \<not> startsWith url ''http://'' \<and> \<not> startsWith url ''https://'' then None
      else
        let rest = (if startsWith url ''http://'' then drop 7 url else drop 8 url);
            authority = takeWhile (\<lambda>c. c \<notin> set ''/?#'') rest;
            hostport = rev (takeWhile (\<lambda>c. c \<noteq> CHR ''@'') (rev authority));
            host = takeWhile (\<lambda>c. c \<noteq> CHR '':'') hostport;
            port = drop (Suc (length host)) hostport
        in if host = [] \<or> list_ex forbidden_host_char host \<or> \<not> list_all is_digit port
           then None
           else Some (toLowerCase host))"

section \<open>Loading the reference domains\<close>

text \<open>\<open>line.split(",")\<close>: the fields between the separators, one more than separators.\<close>

fun split_on :: "char \<Rightarrow> string \<Rightarrow> string list" where
  "split_on sep [] = [[]]"
| "split_on sep (c # cs) =
     (if c = sep then [] # split_on sep cs
      else (case split_on sep cs of [] \<Rightarrow> [[c]] | p # ps \<Rightarrow> (c # p) # ps))"

definition is_space :: "char \<Rightarrow> bool" where
  "is_space c \<longleftrightarrow> c \<in> {CHR '' '', CHR 0x09, CHR 0x0A, CHR 0x0B, CHR 0x0C, CHR 0x0D}"

text \<open>\<open>s.trim()\<close> on ASCII white space.\<close>

definition trim :: "string \<Rightarrow> string" where
  "trim s = rev (dropWhile is_space (rev (dropWhile is_space s)))"

text \<open>
  A JavaScript \<open>Set\<close> of strings iterates in insertion order and holds a value once: a
  list without duplicates, \<open>add\<close> appending a value that is new.
\<close>

definition set_add :: "string list \<Rightarrow> string \<Rightarrow> string list" where
  "set_add domains d = (if d \<in> set domains then domains else domains @ [d])"

text \<open>The \<open>line\<close> handler of \<open>loadDomains\<close>, the same in both files.\<close>

definition on_line :: "string list \<Rightarrow> string \<Rightarrow> string list" where
  "on_line domains line =
     (let parts = split_on (CHR '','') line
      in if length parts = 2 \<and> parts ! 1 \<noteq> ''original_url''
         then set_add domains (toLowerCase (trim (parts ! 1)))
         else domains)"

text \<open>\<open>loadDomains\<close> on the lines of the CSV file, when the stream reads without error.\<close>

definition loadDomains :: "string list \<Rightarrow> string list" where
  "loadDomains lines = foldl on_line [] lines"

section \<open>WHOIS lookups\<close>

text \<open>
  What \<open>whois.lookup(domain, options, callback)\<close> does, as far as the callers can tell:
  it throws before returning, or it returns and later calls back with an error (a
  timeout and a network failure are errors) or with data. Empty data stands for every
  falsy \<open>data\<close>.
\<close>

datatype callback_args = Err | Data string

datatype whois_outcome = Throws | Calls_back callback_args

text \<open>\<open>getWhoisData\<close> of the unnamed file. The log records the calls of \<open>whois.lookup\<close>.\<close>

definition getWhoisData :: "string \<Rightarrow> whois_outcome \<Rightarrow> string list \<Rightarrow> string \<times> string list" where
  "getWhoisData domain outcome queries =
     (case outcome of
        Throws \<Rightarrow> (''WHOIS data unavailable.'', queries @ [domain])
      | Calls_back Err \<Rightarrow> (''WHOIS data unavailable due to server error.'', queries @ [domain])
      | Calls_back (Data data) \<Rightarrow>
          (if data = [] then ''No WHOIS data found.'' else data, queries @ [domain]))"

text \<open>
  The state of \<^verbatim>\<open>backend/server.js\<close>: the Map \<open>whoisCache\<close>, the queries sent with
  \<open>whois.lookup\<close> whose callback has not run yet, and two logs: the calls of
  \<open>getCachedWhoisData\<close> and the calls of \<open>whois.lookup\<close>.
\<close>

record server_state =
  whoisCache :: "string \<rightharpoonup> string"
  in_flight :: "string list"
  cache_calls :: "string list"
  whois_queries :: "string list"

definition initial_state :: server_state where
  "initial_state = \<lparr>whoisCache = Map.empty, in_flight = [], cache_calls = [], whois_queries = []\<rparr>"

text \<open>The message the callback of \<open>getCachedWhoisData\<close> stores and resolves with.\<close>

definition callback_result :: "callback_args \<Rightarrow> string" where
  "callback_result args =
     (case args of
        Err \<Rightarrow> ''WHOIS lookup failed.''
      | Data data \<Rightarrow> (if data = [] then ''No WHOIS data found.'' else data))"

text \<open>
  \<open>getCachedWhoisData\<close> up to the moment it returns its promise. The promise is resolved
  (\<open>Some\<close>) on a cache hit and when \<open>whois.lookup\<close> throws; otherwise the query is in
  flight and the promise is pending (\<open>None\<close>). \<open>throws\<close> says what \<open>whois.lookup\<close> does.
\<close>

definition lookup_start :: "string \<Rightarrow> bool \<Rightarrow> server_state \<Rightarrow> string option \<times> server_state" where
  "lookup_start domain throws s =
     (let s1 = s\<lparr>cache_calls := cache_calls s @ [domain]\<rparr>
      in case whoisCache s domain of
           Some cached \<Rightarrow> (Some cached, s1)
         | None \<Rightarrow>
             (let s2 = s1\<lparr>whois_queries := whois_queries s1 @ [domain]\<rparr>
              in if throws
                 then (Some ''WHOIS data unavailable.'',
                       s2\<lparr>whoisCache := (whoisCache s2)(domain \<mapsto> ''WHOIS data unavailable.'')\<rparr>)
                 else (None, s2\<lparr>in_flight := in_flight s2 @ [domain]\<rparr>)))"

text \<open>The callback of a query in flight: it stores the message and resolves the promise.\<close>

definition lookup_finish :: "string \<Rightarrow> callback_args \<Rightarrow> server_state \<Rightarrow> string \<times> server_state" where
  "lookup_finish domain args s =
     (let result = callback_result args
      in (result, s\<lparr>whoisCache := (whoisCache s)(domain \<mapsto> result),
                      in_flight := remove1 domain (in_flight s)\<rparr>))"

text \<open>
  \<open>await getCachedWhoisData(domain)\<close> with nothing else running in between: the call,
  then the callback of its own query.
\<close>

definition getCachedWhoisData :: "string \<Rightarrow> whois_outcome \<Rightarrow> server_state \<Rightarrow> string \<times> server_state" where
  "getCachedWhoisData domain outcome s =
     (case outcome of
        Throws \<Rightarrow>
          (case lookup_start domain True s of
             (Some v, s') \<Rightarrow> (v, s')
           | (None, s') \<Rightarrow> (''WHOIS data unavailable.'', s'))
      | Calls_back args \<Rightarrow>
          (case lookup_start domain False s of
             (Some v, s') \<Rightarrow> (v, s')
           | (None, s') \<Rightarrow> lookup_finish domain args s'))"

text \<open>
  Requests that overlap: the event loop runs one piece of code at a time, so a run of the
  server is a sequence of events, each a call of \<open>getCachedWhoisData\<close> or the callback of
  a query in flight. A callback for a domain with no query in flight cannot happen and
  changes nothing. Each event yields what it delivers to a caller, if anything.
\<close>

datatype event = Call string bool | Callback string callback_args

fun step :: "event \<Rightarrow> server_state \<Rightarrow> string option \<times> server_state" where
  "step (Call domain throws) s = lookup_start domain throws s"
| "step (Callback domain args) s =
     (if domain \<in> set (in_flight s)
      then (case lookup_finish domain args s of (v, s') \<Rightarrow> (Some v, s'))
      else (None, s))"

fun run :: "event list \<Rightarrow> server_state \<Rightarrow> string option list \<times> server_state" where
  "run [] s = ([], s)"
| "run (e # es) s =
     (case step e s of (out, s') \<Rightarrow> (case run es s' of (outs, s'') \<Rightarrow> (out # outs, s'')))"

section \<open>The handler of \<open>POST /check-clone\<close>\<close>

text \<open>
  \<open>matching_accuracy\<close> is the literal \<open>"100%"\<close> or \<open>highestSimilarity.toFixed(2)\<close> followed
  by \<open>%\<close>; the second keeps the number and leaves the formatting out.
\<close>

datatype accuracy = Literal string | Fixed2_percent real

record verdict =
  suspect_url :: string
  extracted_domain :: string
  best_match_domain :: "string option"
  matching_accuracy :: accuracy
  isClone :: bool
  whoisData :: string

text \<open>The three error bodies, without their leading symbol.\<close>

datatype error = URL_is_required | Invalid_URL_format | Internal_Server_Error

datatype response = Status nat error | Json verdict

text \<open>
  The body of the scoring loop, the same in both files but for the score, which is the
  parameter: \<open>None\<close> when computing it throws.
\<close>

definition keep_best ::
  "(string \<Rightarrow> real option) \<Rightarrow> string \<Rightarrow> string option \<times> real \<Rightarrow> (string option \<times> real) option" where
  "keep_best score storedDomain vars =
     (case vars of (bestMatchDomain, highestSimilarity) \<Rightarrow>
        (case score storedDomain of
           None \<Rightarrow> None
         | Some similarity \<Rightarrow>
             if similarity > highestSimilarity then Some (Some storedDomain, similarity)
             else Some (bestMatchDomain, highestSimilarity)))"

text \<open>
  The handler of \<^verbatim>\<open>backend/server.js\<close>. \<open>compareTwoStrings\<close> belongs to the package
  string-similarity, which is not in the repository: it is a parameter. \<open>body_url\<close> is
  \<open>req.body.suspect_url\<close>, a string, or \<open>None\<close> when the field is missing. The
  \<open>await\<close> is taken with nothing else running in between. An exception anywhere is
  answered with status 500.
\<close>

definition check_clone ::
  "(string \<Rightarrow> string option) \<Rightarrow> (string \<Rightarrow> string \<Rightarrow> real) \<Rightarrow> string list \<Rightarrow>
   string option \<Rightarrow> whois_outcome \<Rightarrow> server_state \<Rightarrow> response \<times> server_state" where
  "check_clone hostname_of compareTwoStrings storedDomains body_url outcome s =
     (case body_url of
        None \<Rightarrow> (Status 400 URL_is_required, s)
      | Some url \<Rightarrow>
          if url = [] then (Status 400 URL_is_required, s)
          else (case extractMainDomain hostname_of url of
             None \<Rightarrow> (Status 400 Invalid_URL_format, s)
           | Some suspect_domain \<Rightarrow>
               if suspect_domain = [] then (Status 400 Invalid_URL_format, s)
               else if suspect_domain \<in> set storedDomains
               then (Json \<lparr>suspect_url = url, extracted_domain = suspect_domain,
                            best_match_domain = Some suspect_domain,
                            matching_accuracy = Literal ''100%'', isClone = False,
                            whoisData = ''WHOIS lookup skipped for verified domains.''\<rparr>, s)
               else (case for_loop storedDomains
                            (keep_best (\<lambda>d. Some (compareTwoStrings suspect_domain d * 100)))
                            (None, 0) of
                  None \<Rightarrow> (Status 500 Internal_Server_Error, s)
                | Some (bestMatchDomain, highestSimilarity) \<Rightarrow>
                    (case (if highestSimilarity > 80
                           then getCachedWhoisData suspect_domain outcome s
                           else (''WHOIS lookup skipped due to low similarity.'', s)) of
                       (whois_data, s') \<Rightarrow>
                         (Json \<lparr>suspect_url = url, extracted_domain = suspect_domain,
                                 best_match_domain = bestMatchDomain,
                                 matching_accuracy = Fixed2_percent highestSimilarity,
                                 isClone = (highestSimilarity > 80),
                                 whoisData = whois_data\<rparr>, s')))))"

text \<open>
  The handler of the unnamed file: it scores with \<open>levenshteinDistance\<close> and calls
  \<open>getWhoisData\<close> whatever the score. Its state is the log of the calls of \<open>whois.lookup\<close>.
\<close>

definition check_clone_unnamed ::
  "(string \<Rightarrow> string option) \<Rightarrow> string list \<Rightarrow>
   string option \<Rightarrow> whois_outcome \<Rightarrow> string list \<Rightarrow> response \<times> string list" where
  "check_clone_unnamed hostname_of storedDomains body_url outcome queries =
     (case body_url of
        None \<Rightarrow> (Status 400 URL_is_required, queries)
      | Some url \<Rightarrow>
          if url = [] then (Status 400 URL_is_required, queries)
          else (case extractMainDomain hostname_of url of
             None \<Rightarrow> (Status 400 Invalid_URL_format, queries)
           | Some suspect_domain \<Rightarrow>
               if suspect_domain = [] then (Status 400 Invalid_URL_format, queries)
               else if suspect_domain \<in> set storedDomains
               then (Json \<lparr>suspect_url = url, extracted_domain = suspect_domain,
                            best_match_domain = Some suspect_domain,
                            matching_accuracy = Literal ''100%'', isClone = False,
                            whoisData = ''WHOIS lookup skipped for verified domains.''\<rparr>, queries)
               else (case for_loop storedDomains
                            (keep_best (levenshteinDistance suspect_domain)) (None, 0) of
                  None \<Rightarrow> (Status 500 Internal_Server_Error, queries)
                | Some (bestMatchDomain, highestSimilarity) \<Rightarrow>
                    (case getWhoisData suspect_domain outcome queries of
                       (whois_data, queries') \<Rightarrow>
                         (Json \<lparr>suspect_url = url, extracted_domain = suspect_domain,
                                 best_match_domain = bestMatchDomain,
                                 matching_accuracy = Fixed2_percent highestSimilarity,
                                 isClone = (highestSimilarity > 80),
                                 whoisData = whois_data\<rparr>, queries')))))"


section \<open>The invariant of the matrix\<close>

text \<open>
  While \<open>levenshteinDistance a b\<close> fills row \<open>r\<close> and is about to write column \<open>c\<close>: every
  row up to \<open>length b\<close> exists, and column 0, the rows above \<open>r\<close> and the cells of row
  \<open>r\<close> left of \<open>c\<close> hold the distance between the prefixes.
\<close>

definition dp_inv :: "string \<Rightarrow> string \<Rightarrow> nat \<Rightarrow> nat \<Rightarrow> matrix \<Rightarrow> bool" where
  "dp_inv a b r c m \<longleftrightarrow>
     (\<forall>i \<le> length b. m i \<noteq> None) \<and>
     (\<forall>i j. i \<le> length b \<and> j \<le> length a \<and> (i < r \<or> j = 0 \<or> (i = r \<and> j < c))
        \<longrightarrow> get_cell m i j = Some (lev_prefix b a i j))"

section \<open>Loops and the matrix\<close>

lemma for_loop_invariant:
  assumes "lo \<le> hi" and "I lo s"
    and "\<And>i t. lo \<le> i \<Longrightarrow> i < hi \<Longrightarrow> I i t \<Longrightarrow> \<exists>t'. body i t = Some t' \<and> I (Suc i) t'"
  shows "\<exists>s'. for_loop [lo..<hi] body s = Some s' \<and> I hi s'"
  using assms
proof (induction "hi - lo" arbitrary: lo s)
  case 0
  then show ?case by simp
next
  case (Suc n)
  then have lt: "lo < hi" by simp
  from Suc.prems(3)[of lo s] Suc.prems(2) lt
  obtain t where t: "body lo s = Some t" "I (Suc lo) t" by auto
  have "\<exists>s'. for_loop [Suc lo..<hi] body t = Some s' \<and> I hi s'"
  proof (rule Suc.hyps(1))
    show "n = hi - Suc lo" using Suc.hyps(2) by simp
    show "Suc lo \<le> hi" using lt by simp
    show "I (Suc lo) t" by (rule t(2))
    show "\<And>i u. Suc lo \<le> i \<Longrightarrow> i < hi \<Longrightarrow> I i u \<Longrightarrow> \<exists>t'. body i u = Some t' \<and> I (Suc i) t'"
      using Suc.prems(3) by simp
  qed
  then show ?case using lt t(1) by (simp add: upt_conv_Cons)
qed

lemma get_cell_set_cell:
  assumes "set_cell m i j v = Some m'"
  shows "get_cell m' i' j' = (if i' = i \<and> j' = j then Some v else get_cell m i' j')"
proof (cases "m i")
  case None
  with assms show ?thesis by (simp add: set_cell_def)
next
  case (Some row)
  with assms have "m' = m(i \<mapsto> row(j \<mapsto> v))" by (simp add: set_cell_def)
  with Some show ?thesis by (simp add: get_cell_def)
qed

lemma set_cell_rows:
  assumes "set_cell m i j v = Some m'"
  shows "(m' i' = None) = (m i' = None)"
proof (cases "m i")
  case None
  with assms show ?thesis by (simp add: set_cell_def)
next
  case (Some row)
  with assms have "m' = m(i \<mapsto> row(j \<mapsto> v))" by (simp add: set_cell_def)
  with Some show ?thesis by auto
qed

lemma lev_prefix_col0 [simp]: "lev_prefix a b i 0 = i"
  by (cases i) simp_all

lemma set_cell_defined: "m i \<noteq> None \<Longrightarrow> \<exists>m'. set_cell m i j v = Some m'"
  by (auto simp: set_cell_def split: option.splits)

lemma init_rows:
  "\<exists>m. for_loop [0..<Suc (length b)] (\<lambda>i m. Some (m(i \<mapsto> [0 \<mapsto> i]))) Map.empty = Some m
      \<and> (\<forall>i < Suc (length b). m i = Some [0 \<mapsto> i])"
  by (rule for_loop_invariant [where I = "\<lambda>k m. \<forall>i < k. m i = Some [0 \<mapsto> i]"])
     (auto simp: less_Suc_eq)

lemma init_rows_inv:
  assumes "\<forall>i < Suc (length b). m i = Some [0 \<mapsto> i]"
  shows "dp_inv a b 0 0 m"
  using assms by (auto simp: dp_inv_def get_cell_def less_Suc_eq_le)

lemma first_row_step:
  assumes "dp_inv a b 0 c m" "c \<le> length a"
  shows "\<exists>m'. set_cell m 0 c c = Some m' \<and> dp_inv a b 0 (Suc c) m'"
proof -
  from assms(1) have "m 0 \<noteq> None" by (simp add: dp_inv_def)
  then obtain m' where m': "set_cell m 0 c c = Some m'" using set_cell_defined by blast
  have "dp_inv a b 0 (Suc c) m'"
    unfolding dp_inv_def
  proof (intro conjI allI impI)
    fix i assume "i \<le> length b"
    then show "m' i \<noteq> None" using assms(1) set_cell_rows[OF m'] by (simp add: dp_inv_def)
  next
    fix i j assume h: "i \<le> length b \<and> j \<le> length a \<and> (i < 0 \<or> j = 0 \<or> i = 0 \<and> j < Suc c)"
    show "get_cell m' i j = Some (lev_prefix b a i j)"
    proof (cases "i = 0 \<and> j = c")
      case True
      then have "i = 0" "j = c" by simp_all
      then show ?thesis by (simp add: get_cell_set_cell[OF m'])
    next
      case False
      then have "get_cell m' i j = get_cell m i j" by (auto simp: get_cell_set_cell[OF m'])
      moreover have "get_cell m i j = Some (lev_prefix b a i j)"
        using assms(1) h False unfolding dp_inv_def by (metis less_Suc_eq)
      ultimately show ?thesis by simp
    qed
  qed
  with m' show ?thesis by blast
qed

lemma first_row:
  assumes "dp_inv a b 0 0 m"
  shows "\<exists>m'. for_loop [0..<Suc (length a)] (\<lambda>j m. set_cell m 0 j j) m = Some m'
           \<and> dp_inv a b 0 (Suc (length a)) m'"
  by (rule for_loop_invariant [where I = "\<lambda>c m. dp_inv a b 0 c m"])
     (use assms first_row_step in auto)

lemma row_done: "dp_inv a b r (Suc (length a)) m \<Longrightarrow> dp_inv a b (Suc r) (Suc 0) m"
proof -
  assume inv: "dp_inv a b r (Suc (length a)) m"
  show ?thesis
    unfolding dp_inv_def
  proof (intro conjI allI impI)
    fix i assume "i \<le> length b"
    then show "m i \<noteq> None" using inv by (simp add: dp_inv_def)
  next
    fix i j
    assume h: "i \<le> length b \<and> j \<le> length a \<and> (i < Suc r \<or> j = 0 \<or> i = Suc r \<and> j < Suc 0)"
    then have "i < r \<or> j = 0 \<or> i = r \<and> j < Suc (length a)" by auto
    with h inv show "get_cell m i j = Some (lev_prefix b a i j)"
      unfolding dp_inv_def by blast
  qed
qed

lemma charAt_eq_iff:
  "i < length b \<Longrightarrow> j < length a \<Longrightarrow> charAt b i = charAt a j \<longleftrightarrow> b ! i = a ! j"
  by (simp add: charAt_def)

lemma fill_cell_step:
  assumes inv: "dp_inv a b r c m" and r: "1 \<le> r" "r \<le> length b" and c: "1 \<le> c" "c \<le> length a"
  shows "\<exists>m'. fill_cell a b r c m = Some m' \<and> dp_inv a b r (Suc c) m'"
proof -
  obtain r' c' where rc: "r = Suc r'" "c = Suc c'" using r c by (metis One_nat_def Suc_le_D)
  have d: "get_cell m r' c' = Some (lev_prefix b a r' c')"
    using inv r c rc unfolding dp_inv_def by simp
  have l: "get_cell m r c' = Some (lev_prefix b a r c')"
    using inv r c rc unfolding dp_inv_def by simp
  have u: "get_cell m r' c = Some (lev_prefix b a r' c)"
    using inv r c rc unfolding dp_inv_def by simp
  have row: "m r \<noteq> None" using inv r unfolding dp_inv_def by simp
  let ?v = "lev_prefix b a r c"
  obtain m' where m': "set_cell m r c ?v = Some m'" using set_cell_defined[of m r] row by blast
  have eq: "charAt b r' = charAt a c' \<longleftrightarrow> b ! r' = a ! c'"
    using r c rc by (intro charAt_eq_iff) simp_all
  have fill: "fill_cell a b r c m = Some m'"
    using d l u m' eq rc by (auto simp: fill_cell_def min.commute min.left_commute)
  have "dp_inv a b r (Suc c) m'"
    unfolding dp_inv_def
  proof (intro conjI allI impI)
    fix i assume "i \<le> length b"
    then show "m' i \<noteq> None" using inv set_cell_rows[OF m'] by (simp add: dp_inv_def)
  next
    fix i j assume h: "i \<le> length b \<and> j \<le> length a \<and> (i < r \<or> j = 0 \<or> i = r \<and> j < Suc c)"
    show "get_cell m' i j = Some (lev_prefix b a i j)"
    proof (cases "i = r \<and> j = c")
      case True
      then have "i = r" "j = c" by simp_all
      then show ?thesis by (simp add: get_cell_set_cell[OF m'])
    next
      case False
      then have "get_cell m' i j = get_cell m i j" by (auto simp: get_cell_set_cell[OF m'])
      moreover have "get_cell m i j = Some (lev_prefix b a i j)"
        using inv h False unfolding dp_inv_def by (metis less_Suc_eq)
      ultimately show ?thesis by simp
    qed
  qed
  with fill show ?thesis by blast
qed

lemma fill_row:
  assumes "dp_inv a b r (Suc 0) m" "1 \<le> r" "r \<le> length b"
  shows "\<exists>m'. for_loop [1..<Suc (length a)] (\<lambda>j m'. fill_cell a b r j m') m = Some m'
           \<and> dp_inv a b (Suc r) (Suc 0) m'"
proof -
  have "\<exists>m'. for_loop [1..<Suc (length a)] (\<lambda>j m'. fill_cell a b r j m') m = Some m'
           \<and> dp_inv a b r (Suc (length a)) m'"
    by (rule for_loop_invariant [where I = "\<lambda>c m. dp_inv a b r c m"])
       (use assms fill_cell_step in auto)
  then show ?thesis using row_done by blast
qed

lemma fill_rows:
  assumes "dp_inv a b (Suc 0) (Suc 0) m"
  shows "\<exists>m'. for_loop [1..<Suc (length b)]
            (\<lambda>i m. for_loop [1..<Suc (length a)] (\<lambda>j m'. fill_cell a b i j m') m) m = Some m'
           \<and> dp_inv a b (Suc (length b)) (Suc 0) m'"
  by (rule for_loop_invariant [where I = "\<lambda>r m. dp_inv a b r (Suc 0) m"])
     (use assms fill_row in auto)

lemma build_matrix_correct:
  "\<exists>m. build_matrix a b = Some m
      \<and> get_cell m (length b) (length a) = Some (lev_prefix b a (length b) (length a))"
proof -
  obtain m1 where m1: "for_loop [0..<Suc (length b)] (\<lambda>i m. Some (m(i \<mapsto> [0 \<mapsto> i]))) Map.empty = Some m1"
    and i1: "dp_inv a b 0 0 m1"
    using init_rows init_rows_inv by blast
  obtain m2 where m2: "for_loop [0..<Suc (length a)] (\<lambda>j m. set_cell m 0 j j) m1 = Some m2"
    and i2: "dp_inv a b (Suc 0) (Suc 0) m2"
    using first_row[OF i1] row_done by blast
  obtain m3 where m3: "for_loop [1..<Suc (length b)]
            (\<lambda>i m. for_loop [1..<Suc (length a)] (\<lambda>j m'. fill_cell a b i j m') m) m2 = Some m3"
    and i3: "dp_inv a b (Suc (length b)) (Suc 0) m3"
    using fill_rows[OF i2] by blast
  have "build_matrix a b = Some m3" using m1 m2 m3 by (simp add: build_matrix_def)
  moreover have "get_cell m3 (length b) (length a) = Some (lev_prefix b a (length b) (length a))"
    using i3 unfolding dp_inv_def by simp
  ultimately show ?thesis by blast
qed

lemma lev_prefix_sym: "lev_prefix a b i j = lev_prefix b a j i"
proof (induction a b i j rule: lev_prefix.induct)
  case (1 a b j)
  then show ?case by (cases j) simp_all
next
  case (2 a b i)
  then show ?case by simp
next
  case (3 a b i j)
  then show ?case by (auto simp: min.commute min.left_commute)
qed

lemma levenshtein_distance_sym: "levenshtein_distance a b = levenshtein_distance b a"
  by (simp add: levenshtein_distance_def lev_prefix_sym[of a b])

lemma lev_prefix_le: "lev_prefix a b i j \<le> max i j"
  by (induction a b i j rule: lev_prefix.induct) auto

lemma lev_prefix_same: "lev_prefix a a i i = 0"
  by (induction i) auto

lemma levenshteinDistance_nonempty:
  assumes "a \<noteq> []" "b \<noteq> []"
  shows "levenshteinDistance a b = Some (normalized_similarity a b)"
proof -
  obtain m where "build_matrix a b = Some m"
    "get_cell m (length b) (length a) = Some (levenshtein_distance b a)"
    using build_matrix_correct[of a b] by (auto simp: levenshtein_distance_def)
  then show ?thesis using assms
    by (simp add: levenshteinDistance_def normalized_similarity_def levenshtein_distance_sym[of b a])
qed

lemma levenshteinDistance_total: "\<exists>r. levenshteinDistance a b = Some r"
proof (cases "a = [] \<or> b = []")
  case True
  then show ?thesis by (auto simp: levenshteinDistance_def)
next
  case False
  then show ?thesis by (simp add: levenshteinDistance_nonempty)
qed

lemma levenshteinDistance_empty:
  "levenshteinDistance [] b = Some (real (length b))"
  "levenshteinDistance a [] = Some (real (length a))"
  by (simp_all add: levenshteinDistance_def)

lemma normalized_similarity_bounds:
  assumes "a \<noteq> []"
  shows "0 \<le> normalized_similarity a b \<and> normalized_similarity a b \<le> 100"
proof -
  let ?m = "max (length a) (length b)"
  let ?q = "real (levenshtein_distance a b) / real ?m"
  have m: "0 < ?m" using assms by (simp add: less_max_iff_disj)
  have "levenshtein_distance a b \<le> ?m"
    unfolding levenshtein_distance_def by (rule lev_prefix_le)
  then have "real (levenshtein_distance a b) \<le> real ?m" by simp
  then have le: "?q \<le> 1" using m by (simp add: divide_le_eq_1)
  have ge: "0 \<le> ?q" by simp
  have "normalized_similarity a b = (1 - ?q) * 100" by (simp only: normalized_similarity_def)
  moreover have "0 \<le> (1 - ?q) * 100" using le by (intro mult_nonneg_nonneg) simp_all
  moreover have "(1 - ?q) * 100 \<le> 1 * 100" using ge by (intro mult_right_mono) simp_all
  ultimately show ?thesis by simp
qed

lemma normalized_similarity_same: "normalized_similarity a a = 100"
  by (simp add: normalized_similarity_def levenshtein_distance_def lev_prefix_same)

lemma normalized_similarity_sym: "normalized_similarity a b = normalized_similarity b a"
  by (simp add: normalized_similarity_def levenshtein_distance_sym[of a b] max.commute)

section \<open>The scoring loop and the handlers\<close>

lemma keep_best_loop:
  assumes "\<forall>m \<in> set xs. score m = Some (f m)"
  shows "\<exists>bm' hi'. for_loop xs (keep_best score) (bm, hi) = Some (bm', hi')
           \<and> hi \<le> hi' \<and> (\<forall>m \<in> set xs. f m \<le> hi') \<and> (hi' = hi \<or> hi' \<in> f ` set xs)
           \<and> (bm' = None \<longleftrightarrow> bm = None \<and> (\<forall>m \<in> set xs. \<not> f m > hi))"
  using assms
proof (induction xs arbitrary: bm hi)
  case Nil
  then show ?case by simp
next
  case (Cons x xs)
  have sx: "score x = Some (f x)" using Cons.prems by simp
  have rest: "\<forall>m \<in> set xs. score m = Some (f m)" using Cons.prems by simp
  show ?case
  proof (cases "f x > hi")
    case True
    from Cons.IH[OF rest, of "Some x" "f x"] obtain bm' hi' where
      r: "for_loop xs (keep_best score) (Some x, f x) = Some (bm', hi')"
         "f x \<le> hi'" "\<forall>m \<in> set xs. f m \<le> hi'" "hi' = f x \<or> hi' \<in> f ` set xs"
         "bm' \<noteq> None"
      by blast
    have "for_loop (x # xs) (keep_best score) (bm, hi) = Some (bm', hi')"
      using sx True r(1) by (simp add: keep_best_def)
    moreover have "hi \<le> hi'" using True r(2) by simp
    moreover have "\<forall>m \<in> set (x # xs). f m \<le> hi'" using r(2,3) by simp
    moreover have "hi' = hi \<or> hi' \<in> f ` set (x # xs)" using r(4) by auto
    moreover have "bm' = None \<longleftrightarrow> bm = None \<and> (\<forall>m \<in> set (x # xs). \<not> f m > hi)"
      using r(5) True by auto
    ultimately show ?thesis by blast
  next
    case False
    from Cons.IH[OF rest, of bm hi] obtain bm' hi' where
      r: "for_loop xs (keep_best score) (bm, hi) = Some (bm', hi')"
         "hi \<le> hi'" "\<forall>m \<in> set xs. f m \<le> hi'" "hi' = hi \<or> hi' \<in> f ` set xs"
         "bm' = None \<longleftrightarrow> bm = None \<and> (\<forall>m \<in> set xs. \<not> f m > hi)"
      by blast
    have "for_loop (x # xs) (keep_best score) (bm, hi) = Some (bm', hi')"
      using sx False r(1) by (simp add: keep_best_def)
    moreover have "\<forall>m \<in> set (x # xs). f m \<le> hi'" using r(2,3) False by simp
    moreover have "hi' = hi \<or> hi' \<in> f ` set (x # xs)" using r(4) by auto
    moreover have "bm' = None \<longleftrightarrow> bm = None \<and> (\<forall>m \<in> set (x # xs). \<not> f m > hi)"
      using r(5) False by auto
    ultimately show ?thesis using r(2) by blast
  qed
qed

lemma keep_best_loop_Max:
  assumes "\<forall>m \<in> set xs. score m = Some (f m)"
  shows "\<exists>bm'. for_loop xs (keep_best score) (None, 0) = Some (bm', Max (insert 0 (f ` set xs)))
           \<and> (bm' = None \<longleftrightarrow> (\<forall>m \<in> set xs. \<not> f m > 0))"
proof -
  from keep_best_loop[OF assms, of None 0] obtain bm' hi' where
    r: "for_loop xs (keep_best score) (None, 0) = Some (bm', hi')"
       "0 \<le> hi'" "\<forall>m \<in> set xs. f m \<le> hi'" "hi' = 0 \<or> hi' \<in> f ` set xs"
       "bm' = None \<longleftrightarrow> (\<forall>m \<in> set xs. \<not> f m > 0)"
    by blast
  have "Max (insert 0 (f ` set xs)) = hi'"
  proof (rule Max_eqI)
    show "finite (insert 0 (f ` set xs))" by simp
    show "\<And>y. y \<in> insert 0 (f ` set xs) \<Longrightarrow> y \<le> hi'" using r(2,3) by auto
    show "hi' \<in> insert 0 (f ` set xs)" using r(4) by auto
  qed
  with r(1,5) show ?thesis by blast
qed

lemma check_clone_verified:
  assumes "url \<noteq> []" "extractMainDomain h url = Some d" "d \<noteq> []" "d \<in> set stored"
  shows "check_clone h cmp stored (Some url) outcome s =
           (Json \<lparr>suspect_url = url, extracted_domain = d, best_match_domain = Some d,
                   matching_accuracy = Literal ''100%'', isClone = False,
                   whoisData = ''WHOIS lookup skipped for verified domains.''\<rparr>, s)"
  using assms by (simp add: check_clone_def)

lemma check_clone_unnamed_verified:
  assumes "url \<noteq> []" "extractMainDomain h url = Some d" "d \<noteq> []" "d \<in> set stored"
  shows "check_clone_unnamed h stored (Some url) outcome q =
           (Json \<lparr>suspect_url = url, extracted_domain = d, best_match_domain = Some d,
                   matching_accuracy = Literal ''100%'', isClone = False,
                   whoisData = ''WHOIS lookup skipped for verified domains.''\<rparr>, q)"
  using assms by (simp add: check_clone_unnamed_def)

lemma check_clone_scored:
  assumes "url \<noteq> []" "extractMainDomain h url = Some d" "d \<noteq> []" "d \<notin> set stored"
    and "for_loop stored (keep_best (\<lambda>m. Some (cmp d m * 100))) (None, 0) = Some (bm, hi)"
  shows "check_clone h cmp stored (Some url) outcome s =
           (Json \<lparr>suspect_url = url, extracted_domain = d, best_match_domain = bm,
                   matching_accuracy = Fixed2_percent hi, isClone = (hi > 80),
                   whoisData = fst (if hi > 80 then getCachedWhoisData d outcome s
                                    else (''WHOIS lookup skipped due to low similarity.'', s))\<rparr>,
            snd (if hi > 80 then getCachedWhoisData d outcome s
                 else (''WHOIS lookup skipped due to low similarity.'', s)))"
  using assms by (simp add: check_clone_def split: prod.splits)

lemma check_clone_unnamed_scored:
  assumes "url \<noteq> []" "extractMainDomain h url = Some d" "d \<noteq> []" "d \<notin> set stored"
    and "for_loop stored (keep_best (levenshteinDistance d)) (None, 0) = Some (bm, hi)"
  shows "check_clone_unnamed h stored (Some url) outcome q =
           (Json \<lparr>suspect_url = url, extracted_domain = d, best_match_domain = bm,
                   matching_accuracy = Fixed2_percent hi, isClone = (hi > 80),
                   whoisData = fst (getWhoisData d outcome q)\<rparr>,
            snd (getWhoisData d outcome q))"
  using assms by (simp add: check_clone_unnamed_def split: prod.splits)

lemma check_clone_Json:
  assumes "check_clone h cmp stored body outcome s = (Json v, s')"
  shows "\<exists>url. body = Some url \<and> url \<noteq> [] \<and> extractMainDomain h url = Some (extracted_domain v)
           \<and> extracted_domain v \<noteq> []"
  using assms
  by (auto simp: check_clone_def split: option.splits if_splits prod.splits)

lemma check_clone_unnamed_Json:
  assumes "check_clone_unnamed h stored body outcome q = (Json v, q')"
  shows "\<exists>url. body = Some url \<and> url \<noteq> [] \<and> extractMainDomain h url = Some (extracted_domain v)
           \<and> extracted_domain v \<noteq> []"
  using assms
  by (auto simp: check_clone_unnamed_def split: option.splits if_splits prod.splits)

lemma check_clone_scored_Max:
  assumes "url \<noteq> []" "extractMainDomain h url = Some d" "d \<noteq> []" "d \<notin> set stored"
  shows "\<exists>bm. for_loop stored (keep_best (\<lambda>m. Some (cmp d m * 100))) (None, 0)
               = Some (bm, Max (insert 0 ((\<lambda>m. cmp d m * 100) ` set stored)))
          \<and> (bm = None \<longleftrightarrow> (\<forall>m \<in> set stored. \<not> cmp d m * 100 > 0))
          \<and> check_clone h cmp stored (Some url) outcome s =
           (Json \<lparr>suspect_url = url, extracted_domain = d, best_match_domain = bm,
                   matching_accuracy =
                     Fixed2_percent (Max (insert 0 ((\<lambda>m. cmp d m * 100) ` set stored))),
                   isClone = (Max (insert 0 ((\<lambda>m. cmp d m * 100) ` set stored)) > 80),
                   whoisData =
                     fst (if Max (insert 0 ((\<lambda>m. cmp d m * 100) ` set stored)) > 80
                          then getCachedWhoisData d outcome s
                          else (''WHOIS lookup skipped due to low similarity.'', s))\<rparr>,
            snd (if Max (insert 0 ((\<lambda>m. cmp d m * 100) ` set stored)) > 80
                 then getCachedWhoisData d outcome s
                 else (''WHOIS lookup skipped due to low similarity.'', s)))"
proof -
  let ?hi = "Max (insert 0 ((\<lambda>m. cmp d m * 100) ` set stored))"
  obtain bm where
    l: "for_loop stored (keep_best (\<lambda>m. Some (cmp d m * 100))) (None, 0) = Some (bm, ?hi)"
    and n: "bm = None \<longleftrightarrow> (\<forall>m \<in> set stored. \<not> cmp d m * 100 > 0)"
    using keep_best_loop_Max[of stored "\<lambda>m. Some (cmp d m * 100)" "\<lambda>m. cmp d m * 100"]
    by auto
  from assms l have "check_clone h cmp stored (Some url) outcome s =
           (Json \<lparr>suspect_url = url, extracted_domain = d, best_match_domain = bm,
                   matching_accuracy = Fixed2_percent ?hi, isClone = (?hi > 80),
                   whoisData = fst (if ?hi > 80 then getCachedWhoisData d outcome s
                                    else (''WHOIS lookup skipped due to low similarity.'', s))\<rparr>,
            snd (if ?hi > 80 then getCachedWhoisData d outcome s
                 else (''WHOIS lookup skipped due to low similarity.'', s)))"
    by (rule check_clone_scored)
  with l n show ?thesis by blast
qed

lemma check_clone_unnamed_scored_Max:
  assumes "url \<noteq> []" "extractMainDomain h url = Some d" "d \<noteq> []" "d \<notin> set stored"
    and "\<forall>m \<in> set stored. levenshteinDistance d m = Some (score m)"
  shows "\<exists>bm. for_loop stored (keep_best (levenshteinDistance d)) (None, 0)
               = Some (bm, Max (insert 0 (score ` set stored)))
          \<and> (bm = None \<longleftrightarrow> (\<forall>m \<in> set stored. \<not> score m > 0))
          \<and> check_clone_unnamed h stored (Some url) outcome q =
           (Json \<lparr>suspect_url = url, extracted_domain = d, best_match_domain = bm,
                   matching_accuracy = Fixed2_percent (Max (insert 0 (score ` set stored))),
                   isClone = (Max (insert 0 (score ` set stored)) > 80),
                   whoisData = fst (getWhoisData d outcome q)\<rparr>,
            snd (getWhoisData d outcome q))"
proof -
  let ?hi = "Max (insert 0 (score ` set stored))"
  obtain bm where
    l: "for_loop stored (keep_best (levenshteinDistance d)) (None, 0) = Some (bm, ?hi)"
    and n: "bm = None \<longleftrightarrow> (\<forall>m \<in> set stored. \<not> score m > 0)"
    using keep_best_loop_Max[OF assms(5)] by auto
  from assms(1-4) l have "check_clone_unnamed h stored (Some url) outcome q =
           (Json \<lparr>suspect_url = url, extracted_domain = d, best_match_domain = bm,
                   matching_accuracy = Fixed2_percent ?hi, isClone = (?hi > 80),
                   whoisData = fst (getWhoisData d outcome q)\<rparr>,
            snd (getWhoisData d outcome q))"
    by (rule check_clone_unnamed_scored)
  with l n show ?thesis by blast
qed

lemma getWhoisData_queries: "snd (getWhoisData d outcome q) = q @ [d]"
  by (simp add: getWhoisData_def split: whois_outcome.splits callback_args.splits)

lemma getCachedWhoisData_calls:
  "cache_calls (snd (getCachedWhoisData d outcome s)) = cache_calls s @ [d]"
  by (simp add: getCachedWhoisData_def lookup_start_def lookup_finish_def Let_def
           split: whois_outcome.splits option.splits)

text \<open>
  With no empty string in the reference set, \<open>levenshteinDistance\<close> gives every reference
  member the normalized Levenshtein score, and the accuracy the unnamed handler reports is
  the largest of these scores over all the members, or 0 when none is above 0.
\<close>

lemma score_is_normalized_levenshtein_nonempty:
  assumes "url \<noteq> []" "extractMainDomain h url = Some d" "d \<noteq> []" "d \<notin> set stored"
    and "[] \<notin> set stored"
  shows "(\<forall>m \<in> set stored. levenshteinDistance d m = Some (normalized_similarity d m))
     \<and> (\<exists>v q'. check_clone_unnamed h stored (Some url) outcome q = (Json v, q')
          \<and> matching_accuracy v
              = Fixed2_percent (Max (insert 0 (normalized_similarity d ` set stored))))"
proof (intro conjI)
  show sc: "\<forall>m \<in> set stored. levenshteinDistance d m = Some (normalized_similarity d m)"
    using assms(3,5) by (auto intro: levenshteinDistance_nonempty)
  from check_clone_unnamed_scored_Max[OF assms(1-4) sc, of outcome q]
  show "\<exists>v q'. check_clone_unnamed h stored (Some url) outcome q = (Json v, q')
          \<and> matching_accuracy v
              = Fixed2_percent (Max (insert 0 (normalized_similarity d ` set stored)))"
    by auto
qed

section \<open>Normalisation and evaluated examples\<close>

lemma startsWith_iff: "startsWith s p \<longleftrightarrow> (\<exists>t. s = p @ t)"
proof
  assume "startsWith s p"
  then have "s = p @ drop (length p) s"
    using append_take_drop_id[of "length p" s] by (simp add: startsWith_def)
  then show "\<exists>t. s = p @ t" ..
next
  assume "\<exists>t. s = p @ t"
  then show "startsWith s p" by (auto simp: startsWith_def)
qed

lemma startsWith_append:
  "startsWith s (p @ q) \<longleftrightarrow> startsWith s p \<and> startsWith (drop (length p) s) q"
proof
  assume "startsWith s (p @ q)"
  then obtain t where "s = (p @ q) @ t" unfolding startsWith_iff ..
  then have "s = p @ (q @ t)" "drop (length p) s = q @ t" by simp_all
  then show "startsWith s p \<and> startsWith (drop (length p) s) q"
    unfolding startsWith_iff by blast
next
  assume "startsWith s p \<and> startsWith (drop (length p) s) q"
  then obtain t u where t: "s = p @ t" and u: "drop (length p) s = q @ u"
    unfolding startsWith_iff by blast
  from t have "drop (length p) s = t" by simp
  with t u have "s = (p @ q) @ u" by simp
  then show "startsWith s (p @ q)" unfolding startsWith_iff ..
qed

lemma strip_www_startsWith:
  "startsWith (if startsWith hn ''www.'' then drop 4 hn else hn) ''www.''
     \<longleftrightarrow> startsWith hn ''www.www.''"
proof -
  have a: "startsWith hn (''www.'' @ ''www.'')
          \<longleftrightarrow> startsWith hn ''www.'' \<and> startsWith (drop (length ''www.'') hn) ''www.''"
    by (rule startsWith_append)
  have l: "length ''www.'' = 4" by simp
  have c: "''www.'' @ ''www.'' = ''www.www.''" by simp
  show ?thesis
  proof (cases "startsWith hn ''www.''")
    case True
    with a show ?thesis unfolding l c by simp
  next
    case False
    with a show ?thesis unfolding l c by simp
  qed
qed

lemma lower_clean: "list_all (\<lambda>c. c \<notin> set ''/?#:@'') ''abcdefghijklmnopqrstuvwxyz''"
  by code_simp

lemma toLowerCase_char_cases:
  "toLowerCase_char c = c \<or> toLowerCase_char c \<in> set ''abcdefghijklmnopqrstuvwxyz''"
proof (cases "map_of (zip ''ABCDEFGHIJKLMNOPQRSTUVWXYZ'' ''abcdefghijklmnopqrstuvwxyz'') c")
  case None
  then have "toLowerCase_char c = c" by (simp only: toLowerCase_char_def option.case)
  then show ?thesis by (rule disjI1)
next
  case (Some l)
  then have "(c, l) \<in> set (zip ''ABCDEFGHIJKLMNOPQRSTUVWXYZ'' ''abcdefghijklmnopqrstuvwxyz'')"
    by (rule map_of_SomeD)
  then have "l \<in> set ''abcdefghijklmnopqrstuvwxyz''" by (rule set_zip_rightD)
  moreover have "toLowerCase_char c = l" using Some by (simp only: toLowerCase_char_def option.case)
  ultimately have "toLowerCase_char c \<in> set ''abcdefghijklmnopqrstuvwxyz''" by (simp only:)
  then show ?thesis by (rule disjI2)
qed

lemma toLowerCase_char_keeps_clean:
  assumes "c \<notin> set ''/?#:@''"
  shows "toLowerCase_char c \<notin> set ''/?#:@''"
proof -
  from toLowerCase_char_cases[of c] show ?thesis
  proof
    assume "toLowerCase_char c = c"
    with assms show ?thesis by metis
  next
    assume "toLowerCase_char c \<in> set ''abcdefghijklmnopqrstuvwxyz''"
    with lower_clean show ?thesis unfolding list_all_iff by blast
  qed
qed

lemma url_hostname_chars:
  assumes "url_hostname url = Some hn"
  shows "set hn \<inter> set ''/?#:@'' = {}"
proof -
  define rest where "rest = (if startsWith url ''http://'' then drop 7 url else drop 8 url)"
  define authority where "authority = takeWhile (\<lambda>c. c \<notin> set ''/?#'') rest"
  define hostport where "hostport = rev (takeWhile (\<lambda>c. c \<noteq> CHR ''@'') (rev authority))"
  define host where "host = takeWhile (\<lambda>c. c \<noteq> CHR '':'') hostport"
  from assms have hn: "hn = toLowerCase host"
    by (auto simp: url_hostname_def Let_def rest_def authority_def hostport_def host_def
             split: if_splits)
  have a: "\<forall>c \<in> set authority. c \<notin> set ''/?#''"
    unfolding authority_def by (auto dest: set_takeWhileD)
  have hp: "\<forall>c \<in> set hostport. c \<noteq> CHR ''@'' \<and> c \<in> set authority"
    unfolding hostport_def by (auto dest: set_takeWhileD)
  have h: "\<forall>c \<in> set host. c \<noteq> CHR '':'' \<and> c \<in> set hostport"
    unfolding host_def by (auto dest: set_takeWhileD)
  have "\<forall>c \<in> set host. c \<notin> set ''/?#:@''"
    using a hp h by auto
  then have "\<forall>c \<in> set host. toLowerCase_char c \<notin> set ''/?#:@''"
    using toLowerCase_char_keeps_clean by blast
  then have "\<forall>c \<in> set (map toLowerCase_char host). c \<notin> set ''/?#:@''"
    by (simp only: set_map ball_simps)
  then show ?thesis unfolding hn toLowerCase_def by blast
qed

lemmas parse_defs = extractMainDomain_def url_hostname_def startsWith_def toLowerCase_def
  toLowerCase_char_def forbidden_host_char_def is_digit_def

lemmas load_defs = loadDomains_def on_line_def set_add_def trim_def toLowerCase_def

lemma extract_examples:
  "extractMainDomain url_hostname ''http://example.com/path'' = Some ''example.com''"
  "extractMainDomain url_hostname ''www.'' = Some []"
  "extractMainDomain url_hostname ''a'' = Some ''a''"
  "extractMainDomain url_hostname ''a.com'' = Some ''a.com''"
  "extractMainDomain url_hostname ''examp1e.com'' = Some ''examp1e.com''"
  "extractMainDomain url_hostname ''www.www.example.com'' = Some ''www.example.com''"
  by (simp_all add: parse_defs)

lemma load_example: "loadDomains [''1,''] = [[]]"
  by (simp add: load_defs)

lemma score_examples:
  "levenshteinDistance ''a'' ''b'' = Some 0"
  "levenshteinDistance ''a.com'' ''b.com'' = Some 80"
  "levenshteinDistance ''examp1e.com'' ''example.com'' = Some (1000 / 11)"
  by code_simp+

section \<open>The lookup cache under overlapping requests\<close>

lemma getCachedWhoisData_stores:
  "getCachedWhoisData d outcome s = (v, s') \<Longrightarrow> whoisCache s' d = Some v"
  by (auto simp: getCachedWhoisData_def lookup_start_def lookup_finish_def Let_def
           split: whois_outcome.splits option.splits)

lemma step_keeps_cached:
  assumes "whoisCache s d = Some v" "d \<notin> set (in_flight s)" "step e s = (out, s1)"
  shows "whoisCache s1 d = Some v \<and> d \<notin> set (in_flight s1)
         \<and> filter (\<lambda>x. x = d) (whois_queries s1) = filter (\<lambda>x. x = d) (whois_queries s)
         \<and> ((\<exists>t. e = Call d t) \<longrightarrow> out = Some v)"
proof (cases e)
  case (Call d' t)
  show ?thesis
  proof (cases "d' = d")
    case True
    with Call assms show ?thesis by (auto simp: lookup_start_def Let_def)
  next
    case False
    with Call assms show ?thesis
      by (auto simp: lookup_start_def Let_def split: option.splits if_splits)
  qed
next
  case (Callback d' args)
  show ?thesis
  proof (cases "d' \<in> set (in_flight s)")
    case True
    with assms(2) have "d' \<noteq> d" by auto
    with Callback True assms show ?thesis
      by (auto simp: lookup_finish_def Let_def)
  next
    case False
    with Callback assms show ?thesis by auto
  qed
qed

lemma run_keeps_cached:
  assumes "whoisCache s d = Some v" "d \<notin> set (in_flight s)" "run es s = (outs, s')"
  shows "whoisCache s' d = Some v \<and> d \<notin> set (in_flight s')
         \<and> filter (\<lambda>x. x = d) (whois_queries s') = filter (\<lambda>x. x = d) (whois_queries s)
         \<and> (\<forall>i < length es. (\<exists>t. es ! i = Call d t) \<longrightarrow> outs ! i = Some v)"
  using assms
proof (induction es arbitrary: s outs)
  case Nil
  then show ?case by simp
next
  case (Cons e es)
  obtain out s1 where st: "step e s = (out, s1)" by (cases "step e s")
  obtain outs1 where r1: "run es s1 = (outs1, s')" and o: "outs = out # outs1"
    using Cons.prems(3) st by (auto split: prod.splits)
  from step_keeps_cached[OF Cons.prems(1,2) st]
  have k: "whoisCache s1 d = Some v" "d \<notin> set (in_flight s1)"
    "filter (\<lambda>x. x = d) (whois_queries s1) = filter (\<lambda>x. x = d) (whois_queries s)"
    "(\<exists>t. e = Call d t) \<longrightarrow> out = Some v"
    by simp_all
  from Cons.IH[OF k(1,2) r1]
  have ih: "whoisCache s' d = Some v" "d \<notin> set (in_flight s')"
    "filter (\<lambda>x. x = d) (whois_queries s') = filter (\<lambda>x. x = d) (whois_queries s1)"
    "\<forall>i < length es. (\<exists>t. es ! i = Call d t) \<longrightarrow> outs1 ! i = Some v"
    by simp_all
  have "\<forall>i < length (e # es). (\<exists>t. (e # es) ! i = Call d t) \<longrightarrow> outs ! i = Some v"
  proof (intro allI impI)
    fix i assume "i < length (e # es)" "\<exists>t. (e # es) ! i = Call d t"
    then show "outs ! i = Some v" using k(4) ih(4) o by (cases i) auto
  qed
  with ih(1,2,3) k(3) show ?case by simp
qed

lemma run_misses:
  assumes "whoisCache s d = None"
  shows "run (replicate n (Call d False)) s =
           (replicate n None,
            s\<lparr>in_flight := in_flight s @ replicate n d,
               cache_calls := cache_calls s @ replicate n d,
               whois_queries := whois_queries s @ replicate n d\<rparr>)"
  using assms
proof (induction n arbitrary: s)
  case 0
  then show ?case by simp
next
  case (Suc n)
  let ?s1 = "s\<lparr>in_flight := in_flight s @ [d], cache_calls := cache_calls s @ [d],
                whois_queries := whois_queries s @ [d]\<rparr>"
  have st: "step (Call d False) s = (None, ?s1)"
    using Suc.prems by (simp add: lookup_start_def Let_def)
  have "whoisCache ?s1 d = None" using Suc.prems by simp
  from Suc.IH[OF this] st show ?case
    by (simp add: replicate_append_same)
qed

lemmas run_defs = initial_state_def lookup_start_def lookup_finish_def callback_result_def Let_def

lemma check_clone_example_80:
  "check_clone url_hostname (\<lambda>a b. 4 / 5) [''b.com''] (Some ''a.com'') (Calls_back Err)
     initial_state =
     (Json \<lparr>suspect_url = ''a.com'', extracted_domain = ''a.com'',
             best_match_domain = Some ''b.com'', matching_accuracy = Fixed2_percent 80,
             isClone = False,
             whoisData = ''WHOIS lookup skipped due to low similarity.''\<rparr>, initial_state)"
  by (simp add: check_clone_def extract_examples keep_best_def)

lemma check_clone_unnamed_example_80:
  "check_clone_unnamed url_hostname [''b.com''] (Some ''a.com'') (Calls_back Err) [] =
     (Json \<lparr>suspect_url = ''a.com'', extracted_domain = ''a.com'',
             best_match_domain = Some ''b.com'', matching_accuracy = Fixed2_percent 80,
             isClone = False,
             whoisData = ''WHOIS data unavailable due to server error.''\<rparr>, [''a.com''])"
  by (simp add: check_clone_unnamed_def extract_examples score_examples keep_best_def
        getWhoisData_def)

section \<open>The claims\<close>

text \<open>
  C1. The claim gives every reference member the normalized Levenshtein score. For a
  reference member that is the empty string, which \<open>loadDomains\<close> produces from the line
  \<open>1,\<close>, \<open>levenshteinDistance\<close> returns from its second line with the length of the
  suspect: the score of \<open>a.com\<close> is 5 where the formula gives 0, and the unnamed handler
  reports the empty string as best match with accuracy 5.
\<close>

theorem empty_reference_entry_scored_by_length:
  "[] \<in> set (loadDomains [''1,''])
   \<and> levenshteinDistance ''a.com'' [] = Some 5
   \<and> normalized_similarity ''a.com'' [] = 0
   \<and> check_clone_unnamed url_hostname (loadDomains [''1,'']) (Some ''a.com'') (Calls_back Err) [] =
     (Json \<lparr>suspect_url = ''a.com'', extracted_domain = ''a.com'', best_match_domain = Some [],
             matching_accuracy = Fixed2_percent 5, isClone = False,
             whoisData = ''WHOIS data unavailable due to server error.''\<rparr>, [''a.com''])"
  by (simp add: check_clone_unnamed_def extract_examples load_example keep_best_def
        getWhoisData_def levenshteinDistance_empty normalized_similarity_def
        levenshtein_distance_def)

text \<open>
  C2, as the code has it. A request reaches the scoring loop when its URL is not empty and
  its normalized domain is not empty and not in the reference set. Its highest score is
  the largest score over all the reference members, or 0 when none is above 0; the verdict
  reports it. In \<^verbatim>\<open>backend/server.js\<close> such a request calls \<open>getCachedWhoisData\<close>
  exactly when the highest score is above 80; otherwise the state is unchanged and the
  verdict carries the fixed message. The unnamed handler has no threshold: it calls
  \<open>getWhoisData\<close>, which queries, for every such request.
\<close>

theorem whois_lookup_gated_in_server_js:
  assumes "url \<noteq> []" "extractMainDomain h url = Some d" "d \<noteq> []" "d \<notin> set stored"
  shows "(\<exists>v s'. check_clone h cmp stored (Some url) outcome s = (Json v, s')
           \<and> matching_accuracy v
                = Fixed2_percent (Max (insert 0 ((\<lambda>m. cmp d m * 100) ` set stored)))
           \<and> (cache_calls s' = cache_calls s @ [d]
                \<longleftrightarrow> Max (insert 0 ((\<lambda>m. cmp d m * 100) ` set stored)) > 80)
           \<and> (Max (insert 0 ((\<lambda>m. cmp d m * 100) ` set stored)) > 80 \<longrightarrow>
                 (whoisData v, s') = getCachedWhoisData d outcome s)
           \<and> (\<not> Max (insert 0 ((\<lambda>m. cmp d m * 100) ` set stored)) > 80 \<longrightarrow>
                 whoisData v = ''WHOIS lookup skipped due to low similarity.'' \<and> s' = s))
       \<and> (\<exists>w q'. check_clone_unnamed h stored (Some url) outcome q = (Json w, q')
           \<and> q' = q @ [d] \<and> whoisData w = fst (getWhoisData d outcome q))"
proof (intro conjI)
  let ?hi = "Max (insert 0 ((\<lambda>m. cmp d m * 100) ` set stored))"
  from check_clone_scored_Max[OF assms, of cmp outcome s] obtain bm where
    c: "check_clone h cmp stored (Some url) outcome s =
           (Json \<lparr>suspect_url = url, extracted_domain = d, best_match_domain = bm,
                   matching_accuracy = Fixed2_percent ?hi, isClone = (?hi > 80),
                   whoisData = fst (if ?hi > 80 then getCachedWhoisData d outcome s
                          else (''WHOIS lookup skipped due to low similarity.'', s))\<rparr>,
            snd (if ?hi > 80 then getCachedWhoisData d outcome s
                 else (''WHOIS lookup skipped due to low similarity.'', s)))"
    by blast
  show "\<exists>v s'. check_clone h cmp stored (Some url) outcome s = (Json v, s')
           \<and> matching_accuracy v = Fixed2_percent ?hi
           \<and> (cache_calls s' = cache_calls s @ [d] \<longleftrightarrow> ?hi > 80)
           \<and> (?hi > 80 \<longrightarrow> (whoisData v, s') = getCachedWhoisData d outcome s)
           \<and> (\<not> ?hi > 80 \<longrightarrow>
                 whoisData v = ''WHOIS lookup skipped due to low similarity.'' \<and> s' = s)"
  proof (intro exI conjI)
    show "check_clone h cmp stored (Some url) outcome s =
           (Json \<lparr>suspect_url = url, extracted_domain = d, best_match_domain = bm,
                   matching_accuracy = Fixed2_percent ?hi, isClone = (?hi > 80),
                   whoisData = fst (if ?hi > 80 then getCachedWhoisData d outcome s
                          else (''WHOIS lookup skipped due to low similarity.'', s))\<rparr>,
            snd (if ?hi > 80 then getCachedWhoisData d outcome s
                 else (''WHOIS lookup skipped due to low similarity.'', s)))"
      by (rule c)
  qed (simp_all add: getCachedWhoisData_calls)
next
  obtain score where sc: "\<forall>m. levenshteinDistance d m = Some (score m)"
    using levenshteinDistance_total by metis
  then have sc': "\<forall>m \<in> set stored. levenshteinDistance d m = Some (score m)" by simp
  from check_clone_unnamed_scored_Max[OF assms sc', of outcome q]
  show "\<exists>w q'. check_clone_unnamed h stored (Some url) outcome q = (Json w, q')
           \<and> q' = q @ [d] \<and> whoisData w = fst (getWhoisData d outcome q)"
    by (auto simp: getWhoisData_queries)
qed

text \<open>
  The hypotheses of C2 hold for the request \<open>a.com\<close> against \<open>{b.com}\<close> with a score of 90:
  the lookup is called.
\<close>

theorem whois_lookup_gated_in_server_js_witness:
  "''a.com'' \<noteq> [] \<and> extractMainDomain url_hostname ''a.com'' = Some ''a.com''
   \<and> ''a.com'' \<notin> set [''b.com'']
   \<and> (\<exists>v s'. check_clone url_hostname (\<lambda>a b. 9 / 10) [''b.com''] (Some ''a.com'')
                       (Calls_back (Data ''Registrar: R'')) initial_state = (Json v, s')
           \<and> matching_accuracy v = Fixed2_percent 90
           \<and> cache_calls s' = [''a.com'']
           \<and> (whoisData v, s')
                = getCachedWhoisData ''a.com'' (Calls_back (Data ''Registrar: R'')) initial_state)
   \<and> (\<exists>w q'. check_clone_unnamed url_hostname [''b.com''] (Some ''a.com'')
                 (Calls_back (Data ''Registrar: R'')) [] = (Json w, q')
           \<and> q' = [''a.com''])"
proof -
  have ne: "''a.com'' \<noteq> []" by simp
  have e: "extractMainDomain url_hostname ''a.com'' = Some ''a.com''" by (rule extract_examples)
  have n: "''a.com'' \<notin> set [''b.com'']" by simp
  from whois_lookup_gated_in_server_js[OF ne e ne n, of "\<lambda>a b. 9 / 10"
      "Calls_back (Data ''Registrar: R'')" initial_state "[]"]
  show ?thesis using e by (auto simp: initial_state_def)
qed

text \<open>
  C2 as stated fails in the unnamed handler: the request \<open>a\<close> against the reference set
  \<open>{b}\<close> scores 0 and a WHOIS query is sent all the same.
\<close>

theorem unnamed_handler_always_looks_up_counterexample:
  "check_clone_unnamed url_hostname [''b''] (Some ''a'') (Calls_back Err) [] =
     (Json \<lparr>suspect_url = ''a'', extracted_domain = ''a'', best_match_domain = None,
             matching_accuracy = Fixed2_percent 0, isClone = False,
             whoisData = ''WHOIS data unavailable due to server error.''\<rparr>, [''a''])"
  by (simp add: check_clone_unnamed_def extract_examples score_examples keep_best_def
        getWhoisData_def)

text \<open>
  C3. The claim gives 0 for an empty string against a non-empty one and 100 for two empty
  strings. \<open>levenshteinDistance\<close> returns from its first two lines with a length there:
  5 for \<open>a.com\<close> against the empty string, a reference entry that \<open>loadDomains\<close> produces
  from the line \<open>1,\<close>; 0 for two empty strings; and 101, above the range, for a string of
  101 characters against the empty one.
\<close>

theorem levenshteinDistance_empty_string_returns_length:
  "levenshteinDistance ''a.com'' [] = Some 5
   \<and> normalized_similarity ''a.com'' [] = 0
   \<and> loadDomains [''1,''] = [[]]
   \<and> levenshteinDistance [] [] = Some 0
   \<and> levenshteinDistance (replicate 101 (CHR ''a'')) [] = Some 101"
  by (simp add: levenshteinDistance_def normalized_similarity_def levenshtein_distance_def
        loadDomains_def on_line_def set_add_def trim_def toLowerCase_def)

text \<open>
  C4, as the code has it. For a request that reaches the scoring loop, the highest score
  is the largest score over all the reference members, or 0 when none is above 0; the
  verdict reports it, and \<open>isClone\<close> is true exactly when it is above 80, in both
  handlers. A highest score of exactly 80 gives false, the comparison being strict.
\<close>

theorem isClone_iff_highest_score_above_80:
  assumes "url \<noteq> []" "extractMainDomain h url = Some d" "d \<noteq> []" "d \<notin> set stored"
  shows "(\<exists>v s'. check_clone h cmp stored (Some url) outcome s = (Json v, s')
           \<and> matching_accuracy v
                = Fixed2_percent (Max (insert 0 ((\<lambda>m. cmp d m * 100) ` set stored)))
           \<and> (isClone v \<longleftrightarrow> Max (insert 0 ((\<lambda>m. cmp d m * 100) ` set stored)) > 80))
       \<and> (\<exists>w q' score. check_clone_unnamed h stored (Some url) outcome q = (Json w, q')
           \<and> (\<forall>m. levenshteinDistance d m = Some (score m))
           \<and> matching_accuracy w = Fixed2_percent (Max (insert 0 (score ` set stored)))
           \<and> (isClone w \<longleftrightarrow> Max (insert 0 (score ` set stored)) > 80))"
proof (intro conjI)
  let ?hi = "Max (insert 0 ((\<lambda>m. cmp d m * 100) ` set stored))"
  from check_clone_scored_Max[OF assms, of cmp outcome s] obtain bm where
    c: "check_clone h cmp stored (Some url) outcome s =
           (Json \<lparr>suspect_url = url, extracted_domain = d, best_match_domain = bm,
                   matching_accuracy = Fixed2_percent ?hi, isClone = (?hi > 80),
                   whoisData = fst (if ?hi > 80 then getCachedWhoisData d outcome s
                          else (''WHOIS lookup skipped due to low similarity.'', s))\<rparr>,
            snd (if ?hi > 80 then getCachedWhoisData d outcome s
                 else (''WHOIS lookup skipped due to low similarity.'', s)))"
    by blast
  show "\<exists>v s'. check_clone h cmp stored (Some url) outcome s = (Json v, s')
           \<and> matching_accuracy v = Fixed2_percent ?hi \<and> (isClone v \<longleftrightarrow> ?hi > 80)"
  proof (intro exI conjI)
    show "check_clone h cmp stored (Some url) outcome s =
           (Json \<lparr>suspect_url = url, extracted_domain = d, best_match_domain = bm,
                   matching_accuracy = Fixed2_percent ?hi, isClone = (?hi > 80),
                   whoisData = fst (if ?hi > 80 then getCachedWhoisData d outcome s
                          else (''WHOIS lookup skipped due to low similarity.'', s))\<rparr>,
            snd (if ?hi > 80 then getCachedWhoisData d outcome s
                 else (''WHOIS lookup skipped due to low similarity.'', s)))"
      by (rule c)
  qed simp_all
next
  obtain score where sc: "\<forall>m. levenshteinDistance d m = Some (score m)"
    using levenshteinDistance_total by metis
  then have sc': "\<forall>m \<in> set stored. levenshteinDistance d m = Some (score m)" by simp
  let ?hi = "Max (insert 0 (score ` set stored))"
  from check_clone_unnamed_scored_Max[OF assms sc', of outcome q] obtain bm where
    c: "check_clone_unnamed h stored (Some url) outcome q =
           (Json \<lparr>suspect_url = url, extracted_domain = d, best_match_domain = bm,
                   matching_accuracy = Fixed2_percent ?hi, isClone = (?hi > 80),
                   whoisData = fst (getWhoisData d outcome q)\<rparr>,
            snd (getWhoisData d outcome q))"
    by blast
  show "\<exists>w q' score. check_clone_unnamed h stored (Some url) outcome q = (Json w, q')
           \<and> (\<forall>m. levenshteinDistance d m = Some (score m))
           \<and> matching_accuracy w = Fixed2_percent (Max (insert 0 (score ` set stored)))
           \<and> (isClone w \<longleftrightarrow> Max (insert 0 (score ` set stored)) > 80)"
  proof (intro exI conjI)
    show "check_clone_unnamed h stored (Some url) outcome q =
           (Json \<lparr>suspect_url = url, extracted_domain = d, best_match_domain = bm,
                   matching_accuracy = Fixed2_percent ?hi, isClone = (?hi > 80),
                   whoisData = fst (getWhoisData d outcome q)\<rparr>,
            snd (getWhoisData d outcome q))"
      by (rule c)
    show "\<forall>m. levenshteinDistance d m = Some (score m)" by (rule sc)
  qed simp_all
qed

text \<open>
  The hypotheses of C4 hold for the request \<open>a.com\<close> against \<open>{b.com}\<close>, which scores
  exactly 80 in both handlers: \<open>isClone\<close> is false.
\<close>

theorem isClone_iff_highest_score_above_80_witness:
  "''a.com'' \<noteq> [] \<and> extractMainDomain url_hostname ''a.com'' = Some ''a.com''
   \<and> ''a.com'' \<notin> set [''b.com'']
   \<and> (\<exists>v s'. check_clone url_hostname (\<lambda>a b. 4 / 5) [''b.com''] (Some ''a.com'')
                 (Calls_back Err) initial_state = (Json v, s')
           \<and> matching_accuracy v = Fixed2_percent 80 \<and> \<not> isClone v)
   \<and> (\<exists>w q'. check_clone_unnamed url_hostname [''b.com''] (Some ''a.com'')
                 (Calls_back Err) [] = (Json w, q')
           \<and> matching_accuracy w = Fixed2_percent 80 \<and> \<not> isClone w)"
proof -
  have ne: "''a.com'' \<noteq> []" by simp
  have e: "extractMainDomain url_hostname ''a.com'' = Some ''a.com''" by (rule extract_examples)
  have n: "''a.com'' \<notin> set [''b.com'']" by simp
  from isClone_iff_highest_score_above_80[OF ne e ne n, of "\<lambda>a b. 4 / 5" "Calls_back Err"
      initial_state "[]"]
  obtain v s' w q' score where
    c: "check_clone url_hostname (\<lambda>a b. 4 / 5) [''b.com''] (Some ''a.com'') (Calls_back Err)
          initial_state = (Json v, s')"
       "matching_accuracy v
          = Fixed2_percent (Max (insert 0 ((\<lambda>m. (4 / 5) * 100) ` set [''b.com''])))"
       "isClone v \<longleftrightarrow> Max (insert 0 ((\<lambda>m. (4 / 5) * 100) ` set [''b.com''])) > (80::real)"
    and u: "check_clone_unnamed url_hostname [''b.com''] (Some ''a.com'') (Calls_back Err) []
          = (Json w, q')"
       "\<forall>m. levenshteinDistance ''a.com'' m = Some (score m)"
       "matching_accuracy w = Fixed2_percent (Max (insert 0 (score ` set [''b.com''])))"
       "isClone w \<longleftrightarrow> Max (insert 0 (score ` set [''b.com''])) > 80"
    by (elim conjE exE) (rule that; assumption)
  have s80: "score ''b.com'' = 80" using u(2) score_examples(2) by simp
  have "matching_accuracy v = Fixed2_percent 80" "\<not> isClone v" using c(2,3) by simp_all
  moreover have "matching_accuracy w = Fixed2_percent 80" "\<not> isClone w"
    using u(3,4) s80 by simp_all
  ultimately show ?thesis using e c(1) u(1) by auto
qed

text \<open>
  C4 as stated, for every request, fails for a verified domain: the request
  \<open>www.example.com\<close> against \<open>{example.com}\<close> is answered on the fast path with the
  accuracy \<open>100%\<close>, which is above 80, and with \<open>isClone\<close> false.
\<close>

theorem verified_request_reports_100_counterexample:
  "check_clone url_hostname (\<lambda>a b. if a = b then 1 else 0) [''example.com'']
     (Some ''www.example.com'') (Calls_back Err) initial_state =
     (Json \<lparr>suspect_url = ''www.example.com'', extracted_domain = ''example.com'',
             best_match_domain = Some ''example.com'', matching_accuracy = Literal ''100%'',
             isClone = False,
             whoisData = ''WHOIS lookup skipped for verified domains.''\<rparr>, initial_state)
   \<and> check_clone_unnamed url_hostname [''example.com''] (Some ''www.example.com'')
     (Calls_back Err) [] =
     (Json \<lparr>suspect_url = ''www.example.com'', extracted_domain = ''example.com'',
             best_match_domain = Some ''example.com'', matching_accuracy = Literal ''100%'',
             isClone = False,
             whoisData = ''WHOIS lookup skipped for verified domains.''\<rparr>, [])"
proof -
  have e: "extractMainDomain url_hostname ''www.example.com'' = Some ''example.com''"
    by (simp add: parse_defs)
  show ?thesis by (simp add: e check_clone_def check_clone_unnamed_def)
qed

text \<open>
  C5, as the code has it. For a non-empty URL whose normalized hostname \<open>d\<close> is not empty and
  is in the reference set, both handlers answer with the verified verdict: best match
  \<open>d\<close>, accuracy \<open>100%\<close>, \<open>isClone\<close> false, the fixed message, and the state unchanged (no
  call of \<open>getCachedWhoisData\<close>, no query). The answer does not depend on
  \<open>compareTwoStrings\<close>: the loop is not run.
\<close>

theorem verified_domain_fast_path:
  assumes "url \<noteq> []" "extractMainDomain h url = Some d" "d \<noteq> []" "d \<in> set stored"
  shows "check_clone h cmp stored (Some url) outcome s =
           (Json \<lparr>suspect_url = url, extracted_domain = d, best_match_domain = Some d,
                   matching_accuracy = Literal ''100%'', isClone = False,
                   whoisData = ''WHOIS lookup skipped for verified domains.''\<rparr>, s)
       \<and> check_clone_unnamed h stored (Some url) outcome q =
           (Json \<lparr>suspect_url = url, extracted_domain = d, best_match_domain = Some d,
                   matching_accuracy = Literal ''100%'', isClone = False,
                   whoisData = ''WHOIS lookup skipped for verified domains.''\<rparr>, q)"
  using assms by (simp add: check_clone_verified check_clone_unnamed_verified)

text \<open>The hypotheses of C5 hold for \<open>http://example.com/path\<close> and \<open>{example.com}\<close>.\<close>

theorem verified_domain_fast_path_witness:
  "''http://example.com/path'' \<noteq> []
   \<and> extractMainDomain url_hostname ''http://example.com/path'' = Some ''example.com''
   \<and> ''example.com'' \<noteq> [] \<and> ''example.com'' \<in> set [''example.com'']
   \<and> check_clone url_hostname (\<lambda>a b. 0) [''example.com''] (Some ''http://example.com/path'')
        (Calls_back Err) initial_state =
        (Json \<lparr>suspect_url = ''http://example.com/path'', extracted_domain = ''example.com'',
                best_match_domain = Some ''example.com'', matching_accuracy = Literal ''100%'',
                isClone = False,
                whoisData = ''WHOIS lookup skipped for verified domains.''\<rparr>, initial_state)
   \<and> check_clone_unnamed url_hostname [''example.com''] (Some ''http://example.com/path'')
        (Calls_back Err) [] =
        (Json \<lparr>suspect_url = ''http://example.com/path'', extracted_domain = ''example.com'',
                best_match_domain = Some ''example.com'', matching_accuracy = Literal ''100%'',
                isClone = False,
                whoisData = ''WHOIS lookup skipped for verified domains.''\<rparr>, [])"
  using verified_domain_fast_path[of "''http://example.com/path''" url_hostname "''example.com''"
      "[''example.com'']" "\<lambda>a b. 0" "Calls_back Err" initial_state "[]"]
  by (simp add: extract_examples)

text \<open>
  C5 as stated fails for the empty string as reference member: the URL \<open>www.\<close> normalizes
  to it, and both handlers answer 400 for an empty domain before they look at the
  reference set.
\<close>

theorem empty_domain_rejected_counterexample:
  "extractMainDomain url_hostname ''www.'' = Some []
   \<and> [] \<in> set (loadDomains [''1,''])
   \<and> check_clone url_hostname (\<lambda>a b. 0) (loadDomains [''1,'']) (Some ''www.'')
        (Calls_back Err) initial_state = (Status 400 Invalid_URL_format, initial_state)
   \<and> check_clone_unnamed url_hostname (loadDomains [''1,'']) (Some ''www.'')
        (Calls_back Err) [] = (Status 400 Invalid_URL_format, [])"
  by (simp add: extract_examples load_example check_clone_def check_clone_unnamed_def)

text \<open>
  C6, as the code has it. When \<open>extractMainDomain\<close> succeeds, its result is the hostname
  component of the repaired URL with one leading \<open>www.\<close> removed, so it starts with
  \<open>www.\<close> exactly when the hostname starts with \<open>www.www.\<close>. With the URL parser
  modelled from the specification, the result has none of the characters that delimit
  a scheme, a path, a query, a port or credentials.
\<close>

theorem extractMainDomain_strips_one_www:
  "(extractMainDomain h url = Some d \<longrightarrow>
      (\<exists>hostname.
          h (if \<not> startsWith url ''http://'' \<and> \<not> startsWith url ''https://''
             then ''https://'' @ url else url) = Some hostname
        \<and> d = (if startsWith hostname ''www.'' then drop 4 hostname else hostname)
        \<and> (startsWith d ''www.'' \<longleftrightarrow> startsWith hostname ''www.www.'')))
   \<and> (extractMainDomain url_hostname url = Some d' \<longrightarrow> set d' \<inter> set ''/?#:@'' = {})"
proof (intro conjI impI)
  assume "extractMainDomain h url = Some d"
  then obtain hostname where
    p: "h (if \<not> startsWith url ''http://'' \<and> \<not> startsWith url ''https://''
           then ''https://'' @ url else url) = Some hostname"
    and d: "d = (if startsWith hostname ''www.'' then drop 4 hostname else hostname)"
    by (auto simp: extractMainDomain_def Let_def split: option.splits)
  from d have "startsWith d ''www.'' \<longleftrightarrow> startsWith hostname ''www.www.''"
    using strip_www_startsWith[of hostname] by simp
  with p d show "\<exists>hostname.
          h (if \<not> startsWith url ''http://'' \<and> \<not> startsWith url ''https://''
             then ''https://'' @ url else url) = Some hostname
        \<and> d = (if startsWith hostname ''www.'' then drop 4 hostname else hostname)
        \<and> (startsWith d ''www.'' \<longleftrightarrow> startsWith hostname ''www.www.'')"
    by blast
next
  assume "extractMainDomain url_hostname url = Some d'"
  then obtain hostname where
    p: "url_hostname (if \<not> startsWith url ''http://'' \<and> \<not> startsWith url ''https://''
           then ''https://'' @ url else url) = Some hostname"
    and d: "d' = (if startsWith hostname ''www.'' then drop 4 hostname else hostname)"
    by (auto simp: extractMainDomain_def Let_def split: option.splits)
  from d have "set d' \<subseteq> set hostname" by (auto dest: in_set_dropD)
  with url_hostname_chars[OF p] show "set d' \<inter> set ''/?#:@'' = {}" by blast
qed

text \<open>The hypotheses of C6 hold for a URL with credentials, port, path and query.\<close>

theorem extractMainDomain_strips_one_www_witness:
  "extractMainDomain url_hostname ''https://user:pw@WWW.Example.COM:8080/a?b#c'' = Some ''example.com''
   \<and> url_hostname ''https://user:pw@WWW.Example.COM:8080/a?b#c'' = Some ''www.example.com''
   \<and> \<not> startsWith ''example.com'' ''www.''
   \<and> set ''example.com'' \<inter> set ''/?#:@'' = {}"
proof -
  have e: "extractMainDomain url_hostname ''https://user:pw@WWW.Example.COM:8080/a?b#c''
             = Some ''example.com''"
    by (simp add: parse_defs)
  have p: "url_hostname ''https://user:pw@WWW.Example.COM:8080/a?b#c'' = Some ''www.example.com''"
    by (simp add: parse_defs)
  have n: "\<not> startsWith ''example.com'' ''www.''" by (simp add: startsWith_def)
  have c: "set ''example.com'' \<inter> set ''/?#:@'' = {}"
    using extractMainDomain_strips_one_www[of url_hostname
         "''https://user:pw@WWW.Example.COM:8080/a?b#c''" "''example.com''" "''example.com''"] e
    by blast
  from e p n c show ?thesis by blast
qed

text \<open>C6 as stated fails for \<open>www.www.example.com\<close>: the result starts with \<open>www.\<close>.\<close>

theorem repeated_www_counterexample:
  "extractMainDomain url_hostname ''www.www.example.com'' = Some ''www.example.com''
   \<and> startsWith ''www.example.com'' ''www.''"
  by (simp add: extract_examples startsWith_def)

text \<open>
  C7, as the code has it. \<open>getCachedWhoisData\<close> never throws: whatever \<open>whois.lookup\<close>
  does, the caller gets a string, and that string is stored under the domain. A stored
  record is returned to every later call, without a new query for that domain, as long as
  no query for the domain is still in flight when the record is stored: this holds along
  every sequence of calls and callbacks.
\<close>

theorem stored_record_is_returned_until_overwritten:
  "(getCachedWhoisData d outcome s0 = (v0, s1) \<longrightarrow> whoisCache s1 d = Some v0)
   \<and> (whoisCache s d = Some v \<and> d \<notin> set (in_flight s) \<and> run es s = (outs, s') \<longrightarrow>
        whoisCache s' d = Some v \<and> d \<notin> set (in_flight s')
        \<and> filter (\<lambda>x. x = d) (whois_queries s') = filter (\<lambda>x. x = d) (whois_queries s)
        \<and> (\<forall>i < length es. (\<exists>t. es ! i = Call d t) \<longrightarrow> outs ! i = Some v))"
  using getCachedWhoisData_stores[of d outcome s0 v0 s1] run_keeps_cached[of s d v es outs s']
  by blast

text \<open>
  The hypotheses of C7 hold after a failed lookup of \<open>x.com\<close>: later calls return the
  failure message, whatever happens to \<open>y.com\<close> in between.
\<close>

theorem stored_record_is_returned_until_overwritten_witness:
  "getCachedWhoisData ''x.com'' (Calls_back Err) initial_state
     = (''WHOIS lookup failed.'',
        initial_state\<lparr>whoisCache := [''x.com'' \<mapsto> ''WHOIS lookup failed.''],
                      cache_calls := [''x.com''], whois_queries := [''x.com'']\<rparr>)
   \<and> ''x.com'' \<notin> set (in_flight
        (initial_state\<lparr>whoisCache := [''x.com'' \<mapsto> ''WHOIS lookup failed.''],
                      cache_calls := [''x.com''], whois_queries := [''x.com'']\<rparr>))
   \<and> fst (run [Call ''x.com'' False, Call ''y.com'' False, Callback ''y.com'' (Data ''R''),
               Call ''x.com'' True]
           (initial_state\<lparr>whoisCache := [''x.com'' \<mapsto> ''WHOIS lookup failed.''],
                      cache_calls := [''x.com''], whois_queries := [''x.com'']\<rparr>))
       = [Some ''WHOIS lookup failed.'', None, Some ''R'', Some ''WHOIS lookup failed.'']
   \<and> whoisCache (snd (run [Call ''x.com'' False, Call ''y.com'' False,
                            Callback ''y.com'' (Data ''R''), Call ''x.com'' True]
           (initial_state\<lparr>whoisCache := [''x.com'' \<mapsto> ''WHOIS lookup failed.''],
                      cache_calls := [''x.com''], whois_queries := [''x.com'']\<rparr>))) ''x.com''
       = Some ''WHOIS lookup failed.''"
proof -
  let ?s = "initial_state\<lparr>whoisCache := [''x.com'' \<mapsto> ''WHOIS lookup failed.''],
                      cache_calls := [''x.com''], whois_queries := [''x.com'']\<rparr>"
  let ?es = "[Call ''x.com'' False, Call ''y.com'' False, Callback ''y.com'' (Data ''R''),
               Call ''x.com'' True]"
  have g: "getCachedWhoisData ''x.com'' (Calls_back Err) initial_state
             = (''WHOIS lookup failed.'', ?s)"
    by (simp add: getCachedWhoisData_def run_defs)
  have f: "''x.com'' \<notin> set (in_flight ?s)" by (simp add: initial_state_def)
  have o: "fst (run ?es ?s)
       = [Some ''WHOIS lookup failed.'', None, Some ''R'', Some ''WHOIS lookup failed.'']"
    by (simp add: run_defs)
  have r: "run ?es ?s = (fst (run ?es ?s), snd (run ?es ?s))" by simp
  have t: "(getCachedWhoisData ''x.com'' (Calls_back Err) initial_state
              = (''WHOIS lookup failed.'', ?s)
            \<longrightarrow> whoisCache ?s ''x.com'' = Some ''WHOIS lookup failed.'')
     \<and> (whoisCache ?s ''x.com'' = Some ''WHOIS lookup failed.''
          \<and> ''x.com'' \<notin> set (in_flight ?s)
          \<and> run ?es ?s = (fst (run ?es ?s), snd (run ?es ?s)) \<longrightarrow>
        whoisCache (snd (run ?es ?s)) ''x.com'' = Some ''WHOIS lookup failed.''
        \<and> ''x.com'' \<notin> set (in_flight (snd (run ?es ?s)))
        \<and> filter (\<lambda>x. x = ''x.com'') (whois_queries (snd (run ?es ?s)))
            = filter (\<lambda>x. x = ''x.com'') (whois_queries ?s)
        \<and> (\<forall>i < length ?es. (\<exists>t. ?es ! i = Call ''x.com'' t)
               \<longrightarrow> fst (run ?es ?s) ! i = Some ''WHOIS lookup failed.''))"
    by (rule stored_record_is_returned_until_overwritten)
  from t g have c: "whoisCache ?s ''x.com'' = Some ''WHOIS lookup failed.''" by blast
  from t c f r
  have "whoisCache (snd (run ?es ?s)) ''x.com'' = Some ''WHOIS lookup failed.''" by blast
  with g f o show ?thesis by blast
qed

text \<open>
  C7 as stated fails when two requests for the same uncached domain overlap: the first
  query fails and its message is stored and returned to a third caller; then the second
  query answers, the record is replaced, and a fourth caller gets the new record. It
  fails in the unnamed file too, where \<open>getWhoisData\<close> has no cache and queries at every
  call.
\<close>

theorem failed_record_replaced_counterexample:
  "fst (run [Call ''x.com'' False, Call ''x.com'' False, Callback ''x.com'' Err,
             Call ''x.com'' False, Callback ''x.com'' (Data ''Registrar: R''),
             Call ''x.com'' False] initial_state)
     = [None, None, Some ''WHOIS lookup failed.'', Some ''WHOIS lookup failed.'',
        Some ''Registrar: R'', Some ''Registrar: R'']
   \<and> getWhoisData ''x.com'' (Calls_back Err) []
     = (''WHOIS data unavailable due to server error.'', [''x.com''])
   \<and> getWhoisData ''x.com'' (Calls_back (Data ''Registrar: R'')) [''x.com'']
     = (''Registrar: R'', [''x.com'', ''x.com''])"
  by (simp add: run_defs getWhoisData_def)

text \<open>
  C8, as the code has it. There is no single flight: \<open>n\<close> calls for an uncached domain
  that arrive before any callback send \<open>n\<close> queries, all in flight together, and every
  promise is pending. A callback then resolves a promise with the record of its own
  query and overwrites the cache.
\<close>

theorem every_miss_sends_its_own_query:
  "(whoisCache s d = None \<longrightarrow>
      run (replicate n (Call d False)) s =
        (replicate n None,
         s\<lparr>in_flight := in_flight s @ replicate n d,
            cache_calls := cache_calls s @ replicate n d,
            whois_queries := whois_queries s @ replicate n d\<rparr>))
   \<and> (d \<in> set (in_flight s) \<longrightarrow>
      step (Callback d args) s =
        (Some (callback_result args),
         s\<lparr>whoisCache := (whoisCache s)(d \<mapsto> callback_result args),
            in_flight := remove1 d (in_flight s)\<rparr>))"
  using run_misses[of s d n] by (simp add: lookup_finish_def Let_def)

text \<open>
  The hypotheses of C8 hold in the state that one pending call for \<open>x.com\<close> leaves: two
  more calls put three queries in flight, and a callback stores its own record.
\<close>

theorem every_miss_sends_its_own_query_witness:
  "whoisCache (initial_state\<lparr>in_flight := [''x.com''], cache_calls := [''x.com''],
                              whois_queries := [''x.com'']\<rparr>) ''x.com'' = None
   \<and> ''x.com'' \<in> set (in_flight (initial_state\<lparr>in_flight := [''x.com''],
                              cache_calls := [''x.com''], whois_queries := [''x.com'']\<rparr>))
   \<and> run (replicate 2 (Call ''x.com'' False))
         (initial_state\<lparr>in_flight := [''x.com''], cache_calls := [''x.com''],
                         whois_queries := [''x.com'']\<rparr>) =
        ([None, None],
         initial_state\<lparr>in_flight := [''x.com'', ''x.com'', ''x.com''],
                        cache_calls := [''x.com'', ''x.com'', ''x.com''],
                        whois_queries := [''x.com'', ''x.com'', ''x.com'']\<rparr>)
   \<and> step (Callback ''x.com'' Err)
         (initial_state\<lparr>in_flight := [''x.com''], cache_calls := [''x.com''],
                         whois_queries := [''x.com'']\<rparr>) =
        (Some ''WHOIS lookup failed.'',
         initial_state\<lparr>whoisCache := [''x.com'' \<mapsto> ''WHOIS lookup failed.''],
                        in_flight := [], cache_calls := [''x.com''],
                        whois_queries := [''x.com'']\<rparr>)"
proof -
  let ?s = "initial_state\<lparr>in_flight := [''x.com''], cache_calls := [''x.com''],
                          whois_queries := [''x.com'']\<rparr>"
  have c: "whoisCache ?s ''x.com'' = None" by (simp add: initial_state_def)
  have f: "''x.com'' \<in> set (in_flight ?s)" by simp
  have r: "replicate 2 ''x.com'' = [''x.com'', ''x.com'']"
    "replicate 2 (None :: string option) = [None, None]"
    by (simp_all add: numeral_2_eq_2)
  from every_miss_sends_its_own_query[of ?s "''x.com''" 2 Err] c f
  have "run (replicate 2 (Call ''x.com'' False)) ?s =
        (replicate 2 None,
         ?s\<lparr>in_flight := in_flight ?s @ replicate 2 ''x.com'',
            cache_calls := cache_calls ?s @ replicate 2 ''x.com'',
            whois_queries := whois_queries ?s @ replicate 2 ''x.com''\<rparr>)"
    and "step (Callback ''x.com'' Err) ?s =
        (Some (callback_result Err),
         ?s\<lparr>whoisCache := (whoisCache ?s)(''x.com'' \<mapsto> callback_result Err),
            in_flight := remove1 ''x.com'' (in_flight ?s)\<rparr>)"
    by blast+
  with c f show ?thesis unfolding r by (simp add: callback_result_def initial_state_def)
qed

text \<open>
  C8 as stated fails for two overlapping calls from the initial state: two queries are in
  flight at once, and the two callers receive different records.
\<close>

theorem racing_lookups_counterexample:
  "in_flight (snd (run [Call ''x.com'' False, Call ''x.com'' False] initial_state))
     = [''x.com'', ''x.com'']
   \<and> whois_queries (snd (run [Call ''x.com'' False, Call ''x.com'' False] initial_state))
     = [''x.com'', ''x.com'']
   \<and> fst (run [Call ''x.com'' False, Call ''x.com'' False,
               Callback ''x.com'' Err, Callback ''x.com'' (Data ''Registrar: R'')] initial_state)
     = [None, None, Some ''WHOIS lookup failed.'', Some ''Registrar: R'']"
  by (simp add: run_defs)

text \<open>
  C9. The score is symmetric: for every pair of strings, empty ones included,
  \<open>levenshteinDistance(a, b)\<close> and \<open>levenshteinDistance(b, a)\<close> both return a number, and
  it is the same number (the early returns give the length of the other string on both
  sides). The similarity of the specification is symmetric too.
\<close>

theorem levenshteinDistance_symmetric:
  "(\<exists>r. levenshteinDistance a b = Some r \<and> levenshteinDistance b a = Some r)
   \<and> normalized_similarity a b = normalized_similarity b a"
proof (intro conjI)
  show "\<exists>r. levenshteinDistance a b = Some r \<and> levenshteinDistance b a = Some r"
  proof (cases "a = [] \<or> b = []")
    case True
    then show ?thesis by (auto simp: levenshteinDistance_def)
  next
    case False
    then have "levenshteinDistance a b = Some (normalized_similarity a b)"
      "levenshteinDistance b a = Some (normalized_similarity b a)"
      by (simp_all add: levenshteinDistance_nonempty)
    then show ?thesis by (simp add: normalized_similarity_sym[of a b])
  qed
  show "normalized_similarity a b = normalized_similarity b a"
    by (rule normalized_similarity_sym)
qed

text \<open>
  C10. For a request that reaches the scoring loop, the best match is absent exactly when
  no reference member scores above 0, in both handlers; then the reported score is 0 and
  \<open>isClone\<close> is false, and in \<^verbatim>\<open>backend/server.js\<close>, where the lookup is gated, the
  fixed message is returned and the state is unchanged.
\<close>

theorem best_match_absent_iff_no_positive_score:
  assumes "url \<noteq> []" "extractMainDomain h url = Some d" "d \<noteq> []" "d \<notin> set stored"
  shows "(\<exists>v s'. check_clone h cmp stored (Some url) outcome s = (Json v, s')
           \<and> (best_match_domain v = None \<longleftrightarrow> (\<forall>m \<in> set stored. \<not> cmp d m * 100 > 0))
           \<and> (best_match_domain v = None \<longrightarrow>
                 matching_accuracy v = Fixed2_percent 0 \<and> \<not> isClone v
                 \<and> whoisData v = ''WHOIS lookup skipped due to low similarity.'' \<and> s' = s))
       \<and> (\<exists>w q' score. check_clone_unnamed h stored (Some url) outcome q = (Json w, q')
           \<and> (\<forall>m. levenshteinDistance d m = Some (score m))
           \<and> (best_match_domain w = None \<longleftrightarrow> (\<forall>m \<in> set stored. \<not> score m > 0))
           \<and> (best_match_domain w = None \<longrightarrow>
                 matching_accuracy w = Fixed2_percent 0 \<and> \<not> isClone w))"
proof (intro conjI)
  let ?f = "\<lambda>m. cmp d m * 100"
  let ?hi = "Max (insert 0 (?f ` set stored))"
  from check_clone_scored_Max[OF assms, of cmp outcome s] obtain bm where
    n: "bm = None \<longleftrightarrow> (\<forall>m \<in> set stored. \<not> ?f m > 0)"
    and c: "check_clone h cmp stored (Some url) outcome s =
           (Json \<lparr>suspect_url = url, extracted_domain = d, best_match_domain = bm,
                   matching_accuracy = Fixed2_percent ?hi, isClone = (?hi > 80),
                   whoisData = fst (if ?hi > 80 then getCachedWhoisData d outcome s
                          else (''WHOIS lookup skipped due to low similarity.'', s))\<rparr>,
            snd (if ?hi > 80 then getCachedWhoisData d outcome s
                 else (''WHOIS lookup skipped due to low similarity.'', s)))"
    by blast
  have z: "bm = None \<Longrightarrow> ?hi = 0"
  proof -
    assume "bm = None"
    with n have "\<forall>m \<in> set stored. ?f m \<le> 0" by (auto simp: not_less)
    then show "?hi = 0" by (intro Max_eqI) auto
  qed
  show "\<exists>v s'. check_clone h cmp stored (Some url) outcome s = (Json v, s')
           \<and> (best_match_domain v = None \<longleftrightarrow> (\<forall>m \<in> set stored. \<not> cmp d m * 100 > 0))
           \<and> (best_match_domain v = None \<longrightarrow>
                 matching_accuracy v = Fixed2_percent 0 \<and> \<not> isClone v
                 \<and> whoisData v = ''WHOIS lookup skipped due to low similarity.'' \<and> s' = s)"
  proof (intro exI conjI)
    show "check_clone h cmp stored (Some url) outcome s =
           (Json \<lparr>suspect_url = url, extracted_domain = d, best_match_domain = bm,
                   matching_accuracy = Fixed2_percent ?hi, isClone = (?hi > 80),
                   whoisData = fst (if ?hi > 80 then getCachedWhoisData d outcome s
                          else (''WHOIS lookup skipped due to low similarity.'', s))\<rparr>,
            snd (if ?hi > 80 then getCachedWhoisData d outcome s
                 else (''WHOIS lookup skipped due to low similarity.'', s)))"
      by (rule c)
  qed (use n z in simp_all)
next
  obtain score where sc: "\<forall>m. levenshteinDistance d m = Some (score m)"
    using levenshteinDistance_total by metis
  then have sc': "\<forall>m \<in> set stored. levenshteinDistance d m = Some (score m)" by simp
  let ?hi = "Max (insert 0 (score ` set stored))"
  from check_clone_unnamed_scored_Max[OF assms sc', of outcome q] obtain bm where
    n: "bm = None \<longleftrightarrow> (\<forall>m \<in> set stored. \<not> score m > 0)"
    and c: "check_clone_unnamed h stored (Some url) outcome q =
           (Json \<lparr>suspect_url = url, extracted_domain = d, best_match_domain = bm,
                   matching_accuracy = Fixed2_percent ?hi, isClone = (?hi > 80),
                   whoisData = fst (getWhoisData d outcome q)\<rparr>,
            snd (getWhoisData d outcome q))"
    by blast
  have z: "bm = None \<Longrightarrow> ?hi = 0"
  proof -
    assume "bm = None"
    with n have "\<forall>m \<in> set stored. score m \<le> 0" by (auto simp: not_less)
    then show "?hi = 0" by (intro Max_eqI) auto
  qed
  show "\<exists>w q' score. check_clone_unnamed h stored (Some url) outcome q = (Json w, q')
           \<and> (\<forall>m. levenshteinDistance d m = Some (score m))
           \<and> (best_match_domain w = None \<longleftrightarrow> (\<forall>m \<in> set stored. \<not> score m > 0))
           \<and> (best_match_domain w = None \<longrightarrow>
                 matching_accuracy w = Fixed2_percent 0 \<and> \<not> isClone w)"
  proof (intro exI conjI)
    show "check_clone_unnamed h stored (Some url) outcome q =
           (Json \<lparr>suspect_url = url, extracted_domain = d, best_match_domain = bm,
                   matching_accuracy = Fixed2_percent ?hi, isClone = (?hi > 80),
                   whoisData = fst (getWhoisData d outcome q)\<rparr>,
            snd (getWhoisData d outcome q))"
      by (rule c)
    show "\<forall>m. levenshteinDistance d m = Some (score m)" by (rule sc)
  qed (use n z in simp_all)
qed

text \<open>
  The hypotheses of C10 hold for the request \<open>a\<close> against the non-empty reference set
  \<open>{b}\<close>, where the best match is absent.
\<close>

theorem best_match_absent_iff_no_positive_score_witness:
  "''a'' \<noteq> [] \<and> extractMainDomain url_hostname ''a'' = Some ''a'' \<and> ''a'' \<notin> set [''b'']
   \<and> (\<exists>v s'. check_clone url_hostname (\<lambda>a b. 0) [''b''] (Some ''a'') (Calls_back Err)
                initial_state = (Json v, s')
           \<and> best_match_domain v = None
           \<and> matching_accuracy v = Fixed2_percent 0 \<and> \<not> isClone v
           \<and> whoisData v = ''WHOIS lookup skipped due to low similarity.''
           \<and> s' = initial_state)
   \<and> (\<exists>w q'. check_clone_unnamed url_hostname [''b''] (Some ''a'') (Calls_back Err) []
                = (Json w, q')
           \<and> best_match_domain w = None
           \<and> matching_accuracy w = Fixed2_percent 0 \<and> \<not> isClone w)"
proof -
  have e: "extractMainDomain url_hostname ''a'' = Some ''a''" by (rule extract_examples)
  have n: "''a'' \<notin> set [''b'']" by simp
  have ne: "''a'' \<noteq> []" by simp
  from best_match_absent_iff_no_positive_score[OF ne e ne n, of "\<lambda>a b. 0" "Calls_back Err"
      initial_state "[]"]
  obtain v s' w q' score where
    c: "check_clone url_hostname (\<lambda>a b. 0) [''b''] (Some ''a'') (Calls_back Err) initial_state
          = (Json v, s')"
       "best_match_domain v = None \<longleftrightarrow> (\<forall>m \<in> set [''b'']. \<not> (0::real) * 100 > 0)"
       "best_match_domain v = None \<longrightarrow>
          matching_accuracy v = Fixed2_percent 0 \<and> \<not> isClone v
          \<and> whoisData v = ''WHOIS lookup skipped due to low similarity.'' \<and> s' = initial_state"
    and u: "check_clone_unnamed url_hostname [''b''] (Some ''a'') (Calls_back Err) [] = (Json w, q')"
       "\<forall>m. levenshteinDistance ''a'' m = Some (score m)"
       "best_match_domain w = None \<longleftrightarrow> (\<forall>m \<in> set [''b'']. \<not> score m > 0)"
       "best_match_domain w = None \<longrightarrow> matching_accuracy w = Fixed2_percent 0 \<and> \<not> isClone w"
    by (elim conjE exE) (rule that; assumption)
  have "score ''b'' = 0" using u(2) score_examples(1) by simp
  with u(3) have "best_match_domain w = None" by simp
  moreover from c(2) have "best_match_domain v = None" by simp
  ultimately show ?thesis using e c(1,3) u(1,4) by auto
qed

end
